theory Spec2Isabelle
  imports Main
begin

section \<open>The IR data model\<close>

text \<open>
  The pass of \<^verbatim>\<open>CMImportBiF.cpp\<close> works on LLVM modules. The parts of the IR that the
  pass reads or writes are modelled here: types, values (operands), instructions,
  functions, global variables and modules. Objects that the C++ code handles through
  pointers (instructions, functions) carry their address as identity.
\<close>

datatype ty = VoidTy | HalfTy | FloatTy | DoubleTy | IntegerTy nat | PointerTy | OtherTy nat

datatype FunctionType = FunctionType (getReturnType: ty) (getParamTypes: "ty list")

text \<open>
  An operand. \<open>InstV a t\<close> is the result of the instruction at address \<open>a\<close>, \<open>ArgV i t\<close> the
  \<open>i\<close>-th formal argument of the enclosing function, \<open>FuncV p\<close> the function at address \<open>p\<close>,
  \<open>CastExprV v\<close> a constant expression that casts the pointer constant \<open>v\<close> to another pointer
  type (a "bitcast"), \<open>ConstV\<close> any other constant and \<open>NullV\<close> an operand slot whose reference
  was dropped.
\<close>

datatype val = InstV nat ty | ArgV nat ty | FuncV nat | CastExprV val | ConstV nat ty | NullV

fun getType :: "val \<Rightarrow> ty" where
  "getType (InstV a t) = t"
| "getType (ArgV i t) = t"
| "getType (FuncV p) = PointerTy"
| "getType (CastExprV v) = PointerTy"
| "getType (ConstV c t) = t"
| "getType NullV = VoidTy"

definition isIntegerTy :: "ty \<Rightarrow> bool" where
  "isIntegerTy t = (case t of IntegerTy n \<Rightarrow> True | _ \<Rightarrow> False)"

definition getPrimitiveSizeInBits :: "ty \<Rightarrow> nat" where
  "getPrimitiveSizeInBits t =
     (case t of IntegerTy n \<Rightarrow> n | HalfTy \<Rightarrow> 16 | FloatTy \<Rightarrow> 32 | DoubleTy \<Rightarrow> 64 | _ \<Rightarrow> 0)"

text \<open>
  Instructions. A call holds its called value, the function type it calls at, its
  arguments and its calling convention. The conversions and the two floating-point
  operations are the instructions the rewriter emits; every other instruction is
  \<open>OtherInst\<close> with its operands and result type. An instruction has its address and
  its debug location. The names of values are not part of the model: the symbol table of
  LLVM renames a value whose name is taken, and nothing in the pass reads the name of an
  instruction but to ask for it again.
\<close>

datatype instKind =
    Call val FunctionType "val list" nat
  | SIToFP val ty
  | UIToFP val ty
  | FMul val val
  | FAdd val val
  | OtherInst "val list" ty

record inst =
  addr :: nat
  dbgLoc :: nat
  ik :: instKind

fun kindType :: "instKind \<Rightarrow> ty" where
  "kindType (Call cv fty args cc) = getReturnType fty"
| "kindType (SIToFP v t) = t"
| "kindType (UIToFP v t) = t"
| "kindType (FMul a b) = getType a"
| "kindType (FAdd a b) = getType a"
| "kindType (OtherInst ops t) = t"

definition instType :: "inst \<Rightarrow> ty" where
  "instType I = kindType (ik I)"

datatype linkageTypes = ExternalLinkage | InternalLinkage | OtherLinkage nat

text \<open>
  A function is a declaration (no body), defined (it has basic blocks) or materializable:
  its body is still in serialized form, and \<open>lazyBody\<close> holds what loading it will give,
  an error message or the blocks. \<open>body\<close> is the list of basic blocks, each the list of
  its instructions.
\<close>

record Func =
  fptr :: nat
  fname :: string
  ftype :: FunctionType
  linkage :: linkageTypes
  dllExport :: bool
  callingConv :: nat
  attributes :: nat
  argNames :: "string list"
  body :: "inst list list"
  lazyBody :: "(string + inst list list) option"

record GlobalVariable =
  gname :: string
  glinkage :: linkageTypes
  initializer :: "int option"

record Module =
  functionList :: "Func list"
  globalList :: "GlobalVariable list"

definition isMaterializable :: "Func \<Rightarrow> bool" where
  "isMaterializable f = (lazyBody f \<noteq> None)"

definition isDeclaration :: "Func \<Rightarrow> bool" where
  "isDeclaration f = (body f = [] \<and> \<not> isMaterializable f)"

definition getFunctionAt :: "Module \<Rightarrow> nat \<Rightarrow> Func option" where
  "getFunctionAt M p = find (\<lambda>f. fptr f = p) (functionList M)"

definition getFunction :: "Module \<Rightarrow> string \<Rightarrow> Func option" where
  "getFunction M n = find (\<lambda>f. fname f = n) (functionList M)"

text \<open>\<^verbatim>\<open>CallInst::getCalledFunction\<close>: the called value when it is a function, else null.\<close>

definition getCalledFunction :: "Module \<Rightarrow> val \<Rightarrow> Func option" where
  "getCalledFunction M cv = (case cv of FuncV p \<Rightarrow> getFunctionAt M p | _ \<Rightarrow> None)"

definition updateFunction :: "nat \<Rightarrow> (Func \<Rightarrow> Func) \<Rightarrow> Module \<Rightarrow> Module" where
  "updateFunction p g M =
     M\<lparr>functionList := map (\<lambda>f. if fptr f = p then g f else f) (functionList M)\<rparr>"

text \<open>
  The pass reports what it cannot handle with \<^verbatim>\<open>assert\<close> alone. In a build with
  assertions a failed assertion aborts the compilation: \<open>AssertFail d a\<close> is that abort,
  with the text \<open>d\<close> that the pass printed to the error stream just before it and the text
  \<open>a\<close> of the assertion. In a build with \<^verbatim>\<open>NDEBUG\<close> the assertions are compiled out
  and the code after them runs. \<open>assertsEnabled\<close> tells the two builds apart.

  An operation of the IR library whose precondition is violated (an operand index out of
  range, a replacement of another type, a cast to the wrong class) is an assertion of the
  library in one build and undefined behaviour in the other; the model stops there with
  \<open>PreconditionViolated\<close> in both.

  The build environment also holds what the target description supplies: the function
  type of each intrinsic for each list of type parameters.
\<close>

datatype error = AssertFail (diagnostic: string) (assertion: string) | PreconditionViolated string

datatype IntrinsicID = not_intrinsic | lifetime_start | lifetime_end | ctlz | fma
  | genx_rnde | genx_rndd | genx_rndu | genx_rndz | genx_cos | genx_sin | genx_exp | genx_log
  | genx_sqrt | genx_cbit | genx_pow | genx_bfrev | genx_fmax | genx_fmin
  | genx_ieee_sqrt | genx_ieee_div | genx_fptosi_sat | genx_fptoui_sat | genx_lzd

record buildEnv =
  intrinsicType :: "IntrinsicID \<Rightarrow> ty list \<Rightarrow> FunctionType"
  assertsEnabled :: bool

section \<open>The demand-driven linker\<close>

text \<open>
  Two modules exist during the walk: the main module and the builtin library module
  (\<^verbatim>\<open>BiFModule\<close>). A \<^verbatim>\<open>Function*\<close> of the C++ code is modelled by the module that owns
  the function and the function's address. The operands of an instruction refer to
  functions of the module that owns the instruction.

  \<open>errStream\<close> is what the pass has written to \<^verbatim>\<open>errs()\<close>.
  \<open>explored\<close> is a ghost field: the log of the functions on which the lambda
  \<^verbatim>\<open>Explore\<close> was invoked, in the order of invocation. The code does not have it; it
  makes the shape of the walk observable.
\<close>

datatype whichModule = InMain | InBiF

type_synonym fref = "whichModule \<times> nat"

record linkState =
  mainModule :: Module
  bifModule :: Module
  errStream :: string
  explored :: "fref list"

definition moduleOf :: "linkState \<Rightarrow> whichModule \<Rightarrow> Module" where
  "moduleOf st m = (case m of InMain \<Rightarrow> mainModule st | InBiF \<Rightarrow> bifModule st)"

definition setModule :: "whichModule \<Rightarrow> Module \<Rightarrow> linkState \<Rightarrow> linkState" where
  "setModule m M st = (case m of InMain \<Rightarrow> st\<lparr>mainModule := M\<rparr> | InBiF \<Rightarrow> st\<lparr>bifModule := M\<rparr>)"

definition GetBuiltinFunction :: "string \<Rightarrow> Module \<Rightarrow> Func option" where
  "GetBuiltinFunction funcName BiFModule =
     (case getFunction BiFModule funcName of
        Some pFunc \<Rightarrow> if \<not> isDeclaration pFunc then Some pFunc else None
      | None \<Rightarrow> None)"

text \<open>
  \<^verbatim>\<open>GetCalledFunctions\<close> walks the instructions of \<open>pFunc\<close>. Every call instruction gets the
  calling convention of \<open>pFunc\<close>; the distinct direct callees are collected in the order of
  their first call (\<open>acc\<close> is both \<^verbatim>\<open>visitedSet\<close> and \<^verbatim>\<open>calledFuncs\<close>, which hold the
  same functions).
\<close>

fun calledFunctions :: "Module \<Rightarrow> inst list \<Rightarrow> nat list \<Rightarrow> nat list" where
  "calledFunctions M [] acc = acc"
| "calledFunctions M (I # Is) acc =
     (case ik I of
        Call cv fty args cc \<Rightarrow>
          (case getCalledFunction M cv of
             None \<Rightarrow> calledFunctions M Is acc
           | Some pCalledFunc \<Rightarrow>
               if fptr pCalledFunc \<in> set acc then calledFunctions M Is acc
               else calledFunctions M Is (acc @ [fptr pCalledFunc]))
      | _ \<Rightarrow> calledFunctions M Is acc)"

definition setCallingConv :: "nat \<Rightarrow> inst \<Rightarrow> inst" where
  "setCallingConv c I =
     (case ik I of Call cv fty args cc \<Rightarrow> I\<lparr>ik := Call cv fty args c\<rparr> | _ \<Rightarrow> I)"

definition GetCalledFunctions :: "Module \<Rightarrow> Func \<Rightarrow> Module \<times> nat list" where
  "GetCalledFunctions M pFunc =
     (updateFunction (fptr pFunc)
        (\<lambda>f. f\<lparr>body := map (map (setCallingConv (callingConv pFunc))) (body f)\<rparr>) M,
      calledFunctions M (concat (body pFunc)) [])"

text \<open>\<^verbatim>\<open>Function::materialize\<close>: loads the body, or fails with a message.\<close>

definition materialize :: "Func \<Rightarrow> string + Func" where
  "materialize f =
     (case lazyBody f of
        None \<Rightarrow> Inr f
      | Some (Inl msg) \<Rightarrow> Inl msg
      | Some (Inr blocks) \<Rightarrow> Inr (f\<lparr>body := blocks, lazyBody := None\<rparr>))"

text \<open>
  The function a callee stands for: a callee that is only declared is looked up by name
  in the library module; any other callee is taken as it is.
\<close>

definition resolveCallee :: "linkState \<Rightarrow> whichModule \<Rightarrow> Func \<Rightarrow> (whichModule \<times> Func) option" where
  "resolveCallee st m pCallee =
     (if isDeclaration pCallee then
        (case GetBuiltinFunction (fname pCallee) (bifModule st) of
           None \<Rightarrow> None
         | Some pSrcFunc \<Rightarrow> Some (InBiF, pSrcFunc))
      else Some (m, pCallee))"

text \<open>
  The recursive lambda \<^verbatim>\<open>Explore\<close> and its loop over \<^verbatim>\<open>calledFuncs\<close>. The recursion
  of the C++ code has no bound of its own, so the model takes fuel: \<open>None\<close> is "the fuel
  ran out", \<open>Some (Inl e)\<close> the abort \<open>e\<close>, \<open>Some (Inr st)\<close> the state on return.

  When loading a body fails, the message of the failure is printed; then comes
  \<^verbatim>\<open>assert(0 && "Failed to materialize Global Variables")\<close>, which aborts in a build
  with assertions. In a build without them nothing more is done for this callee and the
  loop goes on with the next one.
\<close>

fun Explore :: "buildEnv \<Rightarrow> nat \<Rightarrow> linkState \<Rightarrow> fref \<Rightarrow> (error + linkState) option"
  and exploreCallees :: "buildEnv \<Rightarrow> nat \<Rightarrow> linkState \<Rightarrow> fref \<Rightarrow> nat list \<Rightarrow> (error + linkState) option"
where
  "Explore E 0 st root = None"
| "Explore E (Suc n) st root =
     (case getFunctionAt (moduleOf st (fst root)) (snd root) of
        None \<Rightarrow> Some (Inr st)
      | Some pRoot \<Rightarrow>
          (case GetCalledFunctions (moduleOf st (fst root)) pRoot of
             (M', calledFuncs) \<Rightarrow>
               exploreCallees E n
                 ((setModule (fst root) M' st)\<lparr>explored := explored st @ [root]\<rparr>)
                 root calledFuncs))"
| "exploreCallees E n st root [] = Some (Inr st)"
| "exploreCallees E n st root (c # cs) =
     (case getFunctionAt (moduleOf st (fst root)) c of
        None \<Rightarrow> exploreCallees E n st root cs
      | Some pCallee \<Rightarrow>
          (case resolveCallee st (fst root) pCallee of
             None \<Rightarrow> exploreCallees E n st root cs
           | Some (m, pFunc) \<Rightarrow>
               if isMaterializable pFunc then
                 (case materialize pFunc of
                    Inl msg \<Rightarrow>
                      if assertsEnabled E then
                        Some (Inl (AssertFail (''===> Materialize Failure: '' @ msg @ [CHR 0x0A])
                                     ''Failed to materialize Global Variables''))
                      else
                        exploreCallees E n
                          (st\<lparr>errStream := errStream st @ ''===> Materialize Failure: '' @ msg @ [CHR 0x0A]\<rparr>)
                          root cs
                  | Inr loaded \<Rightarrow>
                      (case getFunctionAt (moduleOf st (fst root)) (snd root) of
                         None \<Rightarrow> exploreCallees E n st root cs
                       | Some pRoot \<Rightarrow>
                           (case Explore E n
                                   (setModule m
                                      (updateFunction (fptr pFunc)
                                         (\<lambda>f. loaded\<lparr>callingConv := callingConv pRoot\<rparr>)
                                         (moduleOf st m)) st)
                                   (m, fptr pFunc) of
                              None \<Rightarrow> None
                            | Some (Inl e) \<Rightarrow> Some (Inl e)
                            | Some (Inr st') \<Rightarrow> exploreCallees E n st' root cs)))
               else exploreCallees E n st root cs))"

text \<open>The loop \<^verbatim>\<open>for (auto &func : *MainModule) Explore(&func)\<close>.\<close>

fun exploreRoots :: "buildEnv \<Rightarrow> nat \<Rightarrow> linkState \<Rightarrow> nat list \<Rightarrow> (error + linkState) option" where
  "exploreRoots E n st [] = Some (Inr st)"
| "exploreRoots E n st (p # ps) =
     (case Explore E n st (InMain, p) of
        None \<Rightarrow> None
      | Some (Inl e) \<Rightarrow> Some (Inl e)
      | Some (Inr st') \<Rightarrow> exploreRoots E n st' ps)"

definition demandWalk :: "buildEnv \<Rightarrow> nat \<Rightarrow> Module \<Rightarrow> Module \<Rightarrow> (error + linkState) option" where
  "demandWalk E n MainModule BiFModule =
     exploreRoots E n
       \<lparr>mainModule = MainModule, bifModule = BiFModule, errStream = [], explored = []\<rparr>
       (map fptr (functionList MainModule))"

section \<open>The rewrite tables\<close>

text \<open>The two maps that the constructor \<^verbatim>\<open>BIConvert::BIConvert\<close> fills.\<close>

definition OneMapEntries :: "(string \<times> IntrinsicID) list" where
  "OneMapEntries =
     [(''__builtin_IB_frnd_ne'', genx_rnde),
      (''__builtin_IB_ftoh_rtn'', genx_rndd),
      (''__builtin_IB_ftoh_rtp'', genx_rndu),
      (''__builtin_IB_ftoh_rtz'', genx_rndz),
      (''__builtin_IB_dtoh_rtn'', genx_rnde),
      (''__builtin_IB_dtoh_rtp'', genx_rndu),
      (''__builtin_IB_dtoh_rtz'', genx_rndz),
      (''__builtin_IB_dtof_rtn'', genx_rnde),
      (''__builtin_IB_dtof_rtp'', genx_rndu),
      (''__builtin_IB_dtof_rtz'', genx_rndz),
      (''__builtin_IB_frnd_pi'', genx_rndu),
      (''__builtin_IB_frnd_ni'', genx_rndd),
      (''__builtin_IB_frnd_zi'', genx_rndz),
      (''__builtin_IB_native_cosf'', genx_cos),
      (''__builtin_IB_native_cosh'', genx_cos),
      (''__builtin_IB_native_sinf'', genx_sin),
      (''__builtin_IB_native_sinh'', genx_sin),
      (''__builtin_IB_native_exp2f'', genx_exp),
      (''__builtin_IB_native_exp2h'', genx_exp),
      (''__builtin_IB_native_log2f'', genx_log),
      (''__builtin_IB_native_log2h'', genx_log),
      (''__builtin_IB_native_sqrtf'', genx_sqrt),
      (''__builtin_IB_native_sqrth'', genx_sqrt),
      (''__builtin_IB_native_sqrtd'', genx_sqrt),
      (''__builtin_IB_popcount_1u32'', genx_cbit),
      (''__builtin_IB_popcount_1u16'', genx_cbit),
      (''__builtin_IB_popcount_1u8'', genx_cbit),
      (''__builtin_IB_native_powrf'', genx_pow),
      (''__builtin_IB_fma'', fma),
      (''__builtin_IB_fmah'', fma),
      (''__builtin_IB_bfrev'', genx_bfrev),
      (''__builtin_IB_fmax'', genx_fmax),
      (''__builtin_IB_fmin'', genx_fmin),
      (''__builtin_IB_HMAX'', genx_fmax),
      (''__builtin_IB_HMIN'', genx_fmin),
      (''__builtin_IB_dmin'', genx_fmin),
      (''__builtin_IB_dmax'', genx_fmax),
      (''__builtin_IB_ieee_sqrt'', genx_ieee_sqrt),
      (''__builtin_IB_ieee_divide'', genx_ieee_div),
      (''__builtin_IB_ieee_divide_f64'', genx_ieee_div)]"

definition TwoMapEntries :: "(string \<times> IntrinsicID \<times> IntrinsicID) list" where
  "TwoMapEntries =
     [(''__builtin_IB_dtoi8_rtn'', (genx_rndd, genx_fptosi_sat)),
      (''__builtin_IB_dtoi8_rtp'', (genx_rndu, genx_fptosi_sat)),
      (''__builtin_IB_dtoi8_rte'', (genx_rnde, genx_fptosi_sat)),
      (''__builtin_IB_dtoi16_rtn'', (genx_rndd, genx_fptosi_sat)),
      (''__builtin_IB_dtoi16_rtp'', (genx_rndu, genx_fptosi_sat)),
      (''__builtin_IB_dtoi16_rte'', (genx_rnde, genx_fptosi_sat)),
      (''__builtin_IB_dtoi32_rtn'', (genx_rndd, genx_fptosi_sat)),
      (''__builtin_IB_dtoi32_rtp'', (genx_rndu, genx_fptosi_sat)),
      (''__builtin_IB_dtoi32_rte'', (genx_rnde, genx_fptosi_sat)),
      (''__builtin_IB_dtoi64_rtn'', (genx_rndd, genx_fptosi_sat)),
      (''__builtin_IB_dtoi64_rtp'', (genx_rndu, genx_fptosi_sat)),
      (''__builtin_IB_dtoi64_rte'', (genx_rnde, genx_fptosi_sat)),
      (''__builtin_IB_dtoui8_rtn'', (genx_rndd, genx_fptoui_sat)),
      (''__builtin_IB_dtoui8_rtp'', (genx_rndu, genx_fptoui_sat)),
      (''__builtin_IB_dtoui8_rte'', (genx_rnde, genx_fptoui_sat)),
      (''__builtin_IB_dtoui16_rtn'', (genx_rndd, genx_fptoui_sat)),
      (''__builtin_IB_dtoui16_rtp'', (genx_rndu, genx_fptoui_sat)),
      (''__builtin_IB_dtoui16_rte'', (genx_rnde, genx_fptoui_sat)),
      (''__builtin_IB_dtoui32_rtn'', (genx_rndd, genx_fptoui_sat)),
      (''__builtin_IB_dtoui32_rtp'', (genx_rndu, genx_fptoui_sat)),
      (''__builtin_IB_dtoui32_rte'', (genx_rnde, genx_fptoui_sat)),
      (''__builtin_IB_dtoui64_rtn'', (genx_rndd, genx_fptoui_sat)),
      (''__builtin_IB_dtoui64_rtp'', (genx_rndu, genx_fptoui_sat)),
      (''__builtin_IB_dtoui64_rte'', (genx_rnde, genx_fptoui_sat)),
      (''__builtin_IB_fma_rtz_f64'', (fma, genx_rndz)),
      (''__builtin_IB_fma_rtz_f32'', (fma, genx_rndz))]"

definition OneMap :: "string \<Rightarrow> IntrinsicID option" where
  "OneMap = map_of OneMapEntries"

definition TwoMap :: "string \<Rightarrow> (IntrinsicID \<times> IntrinsicID) option" where
  "TwoMap = map_of TwoMapEntries"

definition startswith :: "string \<Rightarrow> string \<Rightarrow> bool" where
  "startswith s p = (take (length p) s = p)"

subsection \<open>Intrinsic functions\<close>

text \<open>
  The intrinsic machinery of LLVM is not part of the file; what the pass needs of it is
  modelled here. An intrinsic function is a function whose name starts with \<open>llvm.\<close>: the
  name of an intrinsic is its base name followed by one suffix for each type it is
  instantiated with, and \<^verbatim>\<open>Function::getIntrinsicID\<close> recovers the identifier from the
  name. The function type of an instantiated intrinsic is supplied by the target
  description; the model takes it from the build environment.
\<close>

fun intrinsicBaseName :: "IntrinsicID \<Rightarrow> string" where
  "intrinsicBaseName not_intrinsic = ''llvm.''"
| "intrinsicBaseName lifetime_start = ''llvm.lifetime.start''"
| "intrinsicBaseName lifetime_end = ''llvm.lifetime.end''"
| "intrinsicBaseName ctlz = ''llvm.ctlz''"
| "intrinsicBaseName fma = ''llvm.fma''"
| "intrinsicBaseName genx_rnde = ''llvm.genx.rnde''"
| "intrinsicBaseName genx_rndd = ''llvm.genx.rndd''"
| "intrinsicBaseName genx_rndu = ''llvm.genx.rndu''"
| "intrinsicBaseName genx_rndz = ''llvm.genx.rndz''"
| "intrinsicBaseName genx_cos = ''llvm.genx.cos''"
| "intrinsicBaseName genx_sin = ''llvm.genx.sin''"
| "intrinsicBaseName genx_exp = ''llvm.genx.exp''"
| "intrinsicBaseName genx_log = ''llvm.genx.log''"
| "intrinsicBaseName genx_sqrt = ''llvm.genx.sqrt''"
| "intrinsicBaseName genx_cbit = ''llvm.genx.cbit''"
| "intrinsicBaseName genx_pow = ''llvm.genx.pow''"
| "intrinsicBaseName genx_bfrev = ''llvm.genx.bfrev''"
| "intrinsicBaseName genx_fmax = ''llvm.genx.fmax''"
| "intrinsicBaseName genx_fmin = ''llvm.genx.fmin''"
| "intrinsicBaseName genx_ieee_sqrt = ''llvm.genx.ieee.sqrt''"
| "intrinsicBaseName genx_ieee_div = ''llvm.genx.ieee.div''"
| "intrinsicBaseName genx_fptosi_sat = ''llvm.genx.fptosi.sat''"
| "intrinsicBaseName genx_fptoui_sat = ''llvm.genx.fptoui.sat''"
| "intrinsicBaseName genx_lzd = ''llvm.genx.lzd''"

definition intrinsicIDs :: "IntrinsicID list" where
  "intrinsicIDs = [lifetime_start, lifetime_end, ctlz, fma, genx_rnde, genx_rndd, genx_rndu, genx_rndz, genx_cos, genx_sin, genx_exp, genx_log, genx_sqrt, genx_cbit, genx_pow, genx_bfrev, genx_fmax, genx_fmin, genx_ieee_sqrt, genx_ieee_div, genx_fptosi_sat, genx_fptoui_sat, genx_lzd]"

definition digitChar :: "nat \<Rightarrow> char" where
  "digitChar d = char_of (48 + d)"

function showNat :: "nat \<Rightarrow> string" where
  "showNat n = (if n < 10 then [digitChar n] else showNat (n div 10) @ [digitChar (n mod 10)])"
  by pat_completeness auto
termination
  by (relation "measure id") auto

fun getMangledTypeStr :: "ty \<Rightarrow> string" where
  "getMangledTypeStr VoidTy = ''isVoid''"
| "getMangledTypeStr HalfTy = ''f16''"
| "getMangledTypeStr FloatTy = ''f32''"
| "getMangledTypeStr DoubleTy = ''f64''"
| "getMangledTypeStr (IntegerTy n) = ''i'' @ showNat n"
| "getMangledTypeStr PointerTy = ''p0i8''"
| "getMangledTypeStr (OtherTy n) = ''s_'' @ showNat n"

definition Intrinsic_getName :: "IntrinsicID \<Rightarrow> ty list \<Rightarrow> string" where
  "Intrinsic_getName iid tys = intrinsicBaseName iid @ concat (map (\<lambda>t. ''.'' @ getMangledTypeStr t) tys)"

definition lookupIntrinsicID :: "string \<Rightarrow> IntrinsicID" where
  "lookupIntrinsicID n =
     (if \<not> startswith n ''llvm.'' then not_intrinsic
      else (case find (\<lambda>i. n = intrinsicBaseName i \<or> startswith n (intrinsicBaseName i @ ''.''))
                   intrinsicIDs of
              Some i \<Rightarrow> i
            | None \<Rightarrow> not_intrinsic))"

definition getIntrinsicID :: "Func \<Rightarrow> IntrinsicID" where
  "getIntrinsicID f = lookupIntrinsicID (fname f)"

section \<open>Editing a module\<close>

definition allInsts :: "Module \<Rightarrow> inst list" where
  "allInsts M = concat (map (\<lambda>f. concat (body f)) (functionList M))"

definition findInst :: "Module \<Rightarrow> nat \<Rightarrow> inst option" where
  "findInst M a = find (\<lambda>I. addr I = a) (allInsts M)"

text \<open>
  A new object gets an address that no object of its kind in the module has.
\<close>

definition newAddr :: "Module \<Rightarrow> nat" where
  "newAddr M = Suc (fold max (map addr (allInsts M)) 0)"

definition newFptr :: "Module \<Rightarrow> nat" where
  "newFptr M = Suc (fold max (map fptr (functionList M)) 0)"

definition mapBlocks :: "(inst list \<Rightarrow> inst list) \<Rightarrow> Module \<Rightarrow> Module" where
  "mapBlocks g M = M\<lparr>functionList := map (\<lambda>f. f\<lparr>body := map g (body f)\<rparr>) (functionList M)\<rparr>"

fun mapOperands :: "(val \<Rightarrow> val) \<Rightarrow> instKind \<Rightarrow> instKind" where
  "mapOperands g (Call cv fty args cc) = Call (g cv) fty (map g args) cc"
| "mapOperands g (SIToFP v t) = SIToFP (g v) t"
| "mapOperands g (UIToFP v t) = UIToFP (g v) t"
| "mapOperands g (FMul a b) = FMul (g a) (g b)"
| "mapOperands g (FAdd a b) = FAdd (g a) (g b)"
| "mapOperands g (OtherInst ops t) = OtherInst (map g ops) t"

text \<open>
  \<^verbatim>\<open>Value::replaceAllUsesWith\<close>, for an instruction replaced by an instruction of the
  same type: every operand that is the result of the old instruction becomes the result
  of the new one.
\<close>

definition renameV :: "nat \<Rightarrow> nat \<Rightarrow> val \<Rightarrow> val" where
  "renameV old new v = (case v of InstV a t \<Rightarrow> if a = old then InstV new t else v | _ \<Rightarrow> v)"

definition replaceAllUsesWith :: "nat \<Rightarrow> nat \<Rightarrow> Module \<Rightarrow> Module" where
  "replaceAllUsesWith old new M =
     mapBlocks (map (\<lambda>I. I\<lparr>ik := mapOperands (renameV old new) (ik I)\<rparr>)) M"

text \<open>Creating instructions "before \<open>a\<close>": they go right in front of the instruction at \<open>a\<close>.\<close>

definition insertBefore :: "nat \<Rightarrow> inst list \<Rightarrow> Module \<Rightarrow> Module" where
  "insertBefore a news M =
     mapBlocks (\<lambda>blk. concat (map (\<lambda>J. if addr J = a then news @ [J] else [J]) blk)) M"

definition eraseFromParent :: "nat list \<Rightarrow> Module \<Rightarrow> Module" where
  "eraseFromParent as M = mapBlocks (filter (\<lambda>J. addr J \<notin> set as)) M"

text \<open>
  \<^verbatim>\<open>Intrinsic::getDeclaration\<close>: the function of the module that has the name of the
  instantiated intrinsic, inserted at the end of the function list when the module has
  none. A function of that name with another type makes the cast to \<^verbatim>\<open>Function\<close> fail.
\<close>

definition getDeclaration :: "buildEnv \<Rightarrow> Module \<Rightarrow> IntrinsicID \<Rightarrow> ty list \<Rightarrow> error + (Module \<times> Func)" where
  "getDeclaration E M iid tys =
     (case getFunction M (Intrinsic_getName iid tys) of
        Some f \<Rightarrow>
          if ftype f = intrinsicType E iid tys then Inr (M, f)
          else Inl (PreconditionViolated ''cast<Ty>() argument of incompatible type!'')
      | None \<Rightarrow>
          (let f = \<lparr>fptr = newFptr M, fname = Intrinsic_getName iid tys, ftype = intrinsicType E iid tys,
                    linkage = ExternalLinkage, dllExport = False, callingConv = 0,
                    attributes = 0, argNames = [], body = [], lazyBody = None\<rparr>
           in Inr (M\<lparr>functionList := functionList M @ [f]\<rparr>, f)))"

text \<open>
  \<^verbatim>\<open>CallInst::Create(Func, Args, Name, InsertBefore)\<close> followed by \<^verbatim>\<open>setDebugLoc\<close>: the
  call at the new address \<open>a\<close>, with the default calling convention and the debug location
  of the old call. The name asked for is the name of the old call, which is still in the
  function then, so the name the new call gets is another one unless both are empty.
\<close>

definition CallInst_Create :: "Func \<Rightarrow> val list \<Rightarrow> inst \<Rightarrow> nat \<Rightarrow> inst" where
  "CallInst_Create Fn Args InstCall a =
     \<lparr>addr = a, dbgLoc = dbgLoc InstCall, ik = Call (FuncV (fptr Fn)) (ftype Fn) Args 0\<rparr>"

definition newInst :: "instKind \<Rightarrow> inst \<Rightarrow> nat \<Rightarrow> inst" where
  "newInst k InstCall a = \<lparr>addr = a, dbgLoc = dbgLoc InstCall, ik = k\<rparr>"

definition resultOf :: "inst \<Rightarrow> val" where
  "resultOf I = InstV (addr I) (instType I)"

definition getArgOperand :: "val list \<Rightarrow> nat \<Rightarrow> error + val" where
  "getArgOperand args i =
     (if i < length args then Inr (args ! i) else Inl (PreconditionViolated ''Out of bounds!''))"

section \<open>The call rewriter\<close>

text \<open>
  The body of the loop of \<^verbatim>\<open>BIConvert::runOnModule\<close> for one call \<open>InstCall\<close> with the
  direct callee \<open>callee\<close>: \<open>None\<close> when no case matches (the call is left untouched),
  \<open>Some (Inl e)\<close> when an assertion fails, else the module (with the declarations of the
  intrinsics it needed) and the instructions created in front of the call, the last of
  which replaces it. Lifetime markers are queued for deletion with nothing created.
  \<open>cv\<close> is the called value, which is operand 0 of a call that has no argument.
\<close>

definition lowerDirect ::
  "buildEnv \<Rightarrow> Module \<Rightarrow> inst \<Rightarrow> Func \<Rightarrow> val \<Rightarrow> val list \<Rightarrow> (error + (Module \<times> inst list)) option" where
  "lowerDirect E M InstCall callee cv args =
     (let iid = getIntrinsicID callee; a = newAddr M in
      if iid = lifetime_start \<or> iid = lifetime_end then Some (Inr (M, []))
      else if iid = ctlz then
        (let Src = (case args of [] \<Rightarrow> cv | x # xs \<Rightarrow> x); SrcTy = getType Src in
         if assertsEnabled E \<and> \<not> isIntegerTy SrcTy
           then Some (Inl (AssertFail [] ''SrcTy->isIntegerTy()''))
         else if assertsEnabled E \<and> getPrimitiveSizeInBits SrcTy \<noteq> 32
           then Some (Inl (AssertFail [] ''SrcTy->getPrimitiveSizeInBits() == 32''))
         else
           (case getDeclaration E M genx_lzd [SrcTy] of
              Inl e \<Rightarrow> Some (Inl e)
            | Inr (M1, IntrinFunc) \<Rightarrow>
                Some (Inr (M1, [CallInst_Create IntrinFunc [Src] InstCall a]))))
      else
        (let CalleeName = fname callee in
         case OneMap CalleeName of
           Some IID \<Rightarrow>
             (case getDeclaration E M IID [getReturnType (ftype callee)] of
                Inl e \<Rightarrow> Some (Inl e)
              | Inr (M1, IntrinFunc) \<Rightarrow>
                  Some (Inr (M1, [CallInst_Create IntrinFunc args InstCall a])))
         | None \<Rightarrow>
         (case TwoMap CalleeName of
           Some pair \<Rightarrow>
             (case getArgOperand args 0 of
                Inl e \<Rightarrow> Some (Inl e)
              | Inr arg0 \<Rightarrow>
             (case getDeclaration E M (fst pair) [getType arg0] of
                Inl e \<Rightarrow> Some (Inl e)
              | Inr (M1, IntrinFunc0) \<Rightarrow>
                  (let IntrinCall0 = CallInst_Create IntrinFunc0 args InstCall a in
                   case getDeclaration E M1 (snd pair)
                          [getReturnType (ftype callee), instType IntrinCall0] of
                     Inl e \<Rightarrow> Some (Inl e)
                   | Inr (M2, IntrinFunc1) \<Rightarrow>
                       Some (Inr (M2, [IntrinCall0,
                          CallInst_Create IntrinFunc1 [resultOf IntrinCall0] InstCall (Suc a)])))))
         | None \<Rightarrow>
             if startswith CalleeName ''__builtin_IB_itof'' then
               (case getArgOperand args 0 of
                  Inl e \<Rightarrow> Some (Inl e)
                | Inr arg0 \<Rightarrow>
                    Some (Inr (M, [newInst (SIToFP arg0 (getReturnType (ftype callee))) InstCall a])))
             else if startswith CalleeName ''__builtin_IB_uitof'' then
               (case getArgOperand args 0 of
                  Inl e \<Rightarrow> Some (Inl e)
                | Inr arg0 \<Rightarrow>
                    Some (Inr (M, [newInst (UIToFP arg0 (getReturnType (ftype callee))) InstCall a])))
             else if startswith CalleeName ''__builtin_IB_mul_rtz'' then
               (case getArgOperand args 0 of
                  Inl e \<Rightarrow> Some (Inl e)
                | Inr arg0 \<Rightarrow>
               (case getArgOperand args 1 of
                  Inl e \<Rightarrow> Some (Inl e)
                | Inr arg1 \<Rightarrow>
                    (let Mul = newInst (FMul arg0 arg1) InstCall a in
                     case getDeclaration E M genx_rndz [getType arg0] of
                       Inl e \<Rightarrow> Some (Inl e)
                     | Inr (M1, IntrinFunc) \<Rightarrow>
                         Some (Inr (M1, [Mul,
                            CallInst_Create IntrinFunc [resultOf Mul] InstCall (Suc a)])))))
             else if startswith CalleeName ''__builtin_IB_add_rtz'' then
               (case getArgOperand args 0 of
                  Inl e \<Rightarrow> Some (Inl e)
                | Inr arg0 \<Rightarrow>
               (case getArgOperand args 1 of
                  Inl e \<Rightarrow> Some (Inl e)
                | Inr arg1 \<Rightarrow>
                    (let Add = newInst (FAdd arg0 arg1) InstCall a in
                     case getDeclaration E M genx_rndz [getType arg0] of
                       Inl e \<Rightarrow> Some (Inl e)
                     | Inr (M1, IntrinFunc) \<Rightarrow>
                         Some (Inr (M1, [Add,
                            CallInst_Create IntrinFunc [resultOf Add] InstCall (Suc a)])))))
             else None)))"

text \<open>
  The tests at the head of the loop body: the instruction is a call, and its called value
  is a function.
\<close>

definition lowerCall :: "buildEnv \<Rightarrow> Module \<Rightarrow> inst \<Rightarrow> (error + (Module \<times> inst list)) option" where
  "lowerCall E M I =
     (case ik I of
        Call cv fty args cc \<Rightarrow>
          (case getCalledFunction M cv of
             None \<Rightarrow> None
           | Some callee \<Rightarrow> lowerDirect E M I callee cv args)
      | _ \<Rightarrow> None)"

record cvtState =
  cvtModule :: Module
  ListDelete :: "nat list"

text \<open>
  The end of each case: the new instructions stand in front of the call, the uses of the
  call become uses of the last new instruction (which must have the type of the call),
  and the call is queued in \<^verbatim>\<open>ListDelete\<close>.
\<close>

definition replaceAndQueue :: "cvtState \<Rightarrow> Module \<Rightarrow> inst \<Rightarrow> inst list \<Rightarrow> error + cvtState" where
  "replaceAndQueue st M1 InstCall news =
     (if news = [] then
        Inr \<lparr>cvtModule = M1, ListDelete = ListDelete st @ [addr InstCall]\<rparr>
      else if instType (last news) \<noteq> instType InstCall then
        Inl (PreconditionViolated ''replaceAllUses of value with new value of different type!'')
      else
        Inr \<lparr>cvtModule = replaceAllUsesWith (addr InstCall) (addr (last news))
                           (insertBefore (addr InstCall) news M1),
             ListDelete = ListDelete st @ [addr InstCall]\<rparr>)"

text \<open>One step of the innermost loop, for the instruction at address \<open>a\<close>.\<close>

definition convertCall :: "buildEnv \<Rightarrow> cvtState \<Rightarrow> nat \<Rightarrow> error + cvtState" where
  "convertCall E st a =
     (case findInst (cvtModule st) a of
        None \<Rightarrow> Inr st
      | Some I \<Rightarrow>
          (case lowerCall E (cvtModule st) I of
             None \<Rightarrow> Inr st
           | Some (Inl e) \<Rightarrow> Inl e
           | Some (Inr (M1, news)) \<Rightarrow> replaceAndQueue st M1 I news))"

text \<open>
  The three nested loops over the functions of the module, the blocks of a function and
  the instructions of a block. The loops run over the lists as they stand when the pass
  starts and read each instruction, by its address, in the current state: the pass
  inserts instructions only in front of the instruction it is at, erases nothing before
  the loops end, and adds only functions without a body, so the iterators of the C++
  code meet exactly the instructions of these lists, in this order.
\<close>

fun runOnInsts :: "buildEnv \<Rightarrow> cvtState \<Rightarrow> inst list \<Rightarrow> error + cvtState" where
  "runOnInsts E st [] = Inr st"
| "runOnInsts E st (I # Is) =
     (case convertCall E st (addr I) of Inl e \<Rightarrow> Inl e | Inr st' \<Rightarrow> runOnInsts E st' Is)"

fun runOnBlocks :: "buildEnv \<Rightarrow> cvtState \<Rightarrow> inst list list \<Rightarrow> error + cvtState" where
  "runOnBlocks E st [] = Inr st"
| "runOnBlocks E st (BB # BBs) =
     (case runOnInsts E st BB of Inl e \<Rightarrow> Inl e | Inr st' \<Rightarrow> runOnBlocks E st' BBs)"

fun runOnFunctions :: "buildEnv \<Rightarrow> cvtState \<Rightarrow> Func list \<Rightarrow> error + cvtState" where
  "runOnFunctions E st [] = Inr st"
| "runOnFunctions E st (func # funcs) =
     (case runOnBlocks E st (body func) of Inl e \<Rightarrow> Inl e | Inr st' \<Rightarrow> runOnFunctions E st' funcs)"

text \<open>The two loops at the end of the pass, which set internal linkage.\<close>

definition internalize :: "Module \<Rightarrow> Module" where
  "internalize M =
     M\<lparr>globalList :=
         map (\<lambda>G. if initializer G \<noteq> None then G\<lparr>glinkage := InternalLinkage\<rparr> else G) (globalList M),
       functionList :=
         map (\<lambda>F. if getIntrinsicID F = not_intrinsic \<and> \<not> isDeclaration F \<and> \<not> dllExport F
                   then F\<lparr>linkage := InternalLinkage\<rparr> else F) (functionList M)\<rparr>"

definition runOnModule :: "buildEnv \<Rightarrow> Module \<Rightarrow> error + Module" where
  "runOnModule E M =
     (case runOnFunctions E \<lparr>cvtModule = M, ListDelete = []\<rparr> (functionList M) of
        Inl e \<Rightarrow> Inl e
      | Inr st \<Rightarrow> Inr (internalize (eraseFromParent (ListDelete st) (cvtModule st))))"

section \<open>Signature repair\<close>

text \<open>
  \<^verbatim>\<open>removeFunctionBitcasts\<close> replaces a call through a cast of a defined function by a
  direct call of a copy of the function that has the function type of the call.

  \<^verbatim>\<open>Value::stripPointerCasts\<close> on a constant, and the test whether a value refers to the
  function at \<open>p\<close>.
\<close>

fun stripPointerCasts :: "val \<Rightarrow> val" where
  "stripPointerCasts (CastExprV v) = stripPointerCasts v"
| "stripPointerCasts v = v"

fun refersTo :: "nat \<Rightarrow> val \<Rightarrow> bool" where
  "refersTo p (FuncV q) = (p = q)"
| "refersTo p (CastExprV v) = refersTo p v"
| "refersTo p v = False"

fun operandsOf :: "instKind \<Rightarrow> val list" where
  "operandsOf (Call cv fty args cc) = args @ [cv]"
| "operandsOf (SIToFP v t) = [v]"
| "operandsOf (UIToFP v t) = [v]"
| "operandsOf (FMul a b) = [a, b]"
| "operandsOf (FAdd a b) = [a, b]"
| "operandsOf (OtherInst ops t) = ops"

text \<open>
  \<^verbatim>\<open>use_empty\<close> of the function at \<open>p\<close>: no operand of an instruction of the module is the
  function or a cast of it. (A cast expression that has no user left has dropped its
  reference by then.)
\<close>

definition use_empty :: "Module \<Rightarrow> nat \<Rightarrow> bool" where
  "use_empty M p = (\<forall>I \<in> set (allInsts M). \<forall>v \<in> set (operandsOf (ik I)). \<not> refersTo p v)"

text \<open>
  The state of the pass: the module, the calls to delete at the end, and the map from a
  function to the copies made of it, in the order they were made (a function that is not
  a key of the \<^verbatim>\<open>DenseMap\<close> has the empty list).
\<close>

record repairState =
  rpModule :: Module
  list_delete :: "nat list"
  bitcastFunctionMap :: "nat \<Rightarrow> nat list"

text \<open>
  \<^verbatim>\<open>Function::Create(Ty, Linkage, Name, &M)\<close>: a new function without a body at the end
  of the function list of the module. The name asked for is the name of a function of
  the module, so the symbol table gives the new function another name; \<open>uniq\<close>, a
  parameter of the model, is that choice, from the names in use and the name asked for.
\<close>

definition Function_Create ::
  "(string list \<Rightarrow> string \<Rightarrow> string) \<Rightarrow> Module \<Rightarrow> FunctionType \<Rightarrow> linkageTypes \<Rightarrow> string \<Rightarrow> Func" where
  "Function_Create uniq M Ty Linkage Name =
     \<lparr>fptr = newFptr M, fname = uniq (map fname (functionList M)) Name, ftype = Ty,
      linkage = Linkage, dllExport = False, callingConv = 0, attributes = 0,
      argNames = replicate (length (getParamTypes Ty)) [], body = [], lazyBody = None\<rparr>"

text \<open>
  \<^verbatim>\<open>CloneFunctionInto\<close> with the map from the arguments of the source to the arguments of
  the destination: the instructions of the source are copied, in their order and blocks,
  to new addresses from \<open>a0\<close> on; an operand that is a result of an instruction of the
  source becomes the result of its copy, and an argument of the source becomes the
  argument of the destination at the same position, which has the type the function type
  of the destination gives it. The DLL storage class is among the properties that the
  library function copies.
\<close>

definition indexOf :: "nat \<Rightarrow> nat list \<Rightarrow> nat option" where
  "indexOf a as = (if a \<in> set as then Some (length (takeWhile (\<lambda>x. x \<noteq> a) as)) else None)"

definition cloneV :: "nat \<Rightarrow> nat list \<Rightarrow> ty list \<Rightarrow> val \<Rightarrow> val" where
  "cloneV a0 srcAddrs dstParams v =
     (case v of
        InstV a t \<Rightarrow> (case indexOf a srcAddrs of Some i \<Rightarrow> InstV (a0 + i) t | None \<Rightarrow> v)
      | ArgV i t \<Rightarrow> ArgV i (if i < length dstParams then dstParams ! i else t)
      | _ \<Rightarrow> v)"

definition cloneInst :: "nat \<Rightarrow> nat list \<Rightarrow> ty list \<Rightarrow> inst \<Rightarrow> inst" where
  "cloneInst a0 srcAddrs dstParams I =
     (case indexOf (addr I) srcAddrs of
        Some i \<Rightarrow> I\<lparr>addr := a0 + i, ik := mapOperands (cloneV a0 srcAddrs dstParams) (ik I)\<rparr>
      | None \<Rightarrow> I)"

definition CloneFunctionInto :: "nat \<Rightarrow> Func \<Rightarrow> Func \<Rightarrow> Func" where
  "CloneFunctionInto a0 NewFunc OldFunc =
     NewFunc\<lparr>body := map (map (cloneInst a0 (map addr (concat (body OldFunc)))
                                  (getParamTypes (ftype NewFunc))))
                         (body OldFunc),
              dllExport := dllExport OldFunc\<rparr>"

text \<open>
  The end of the loop body, once the destination \<open>pDstFunc\<close> is known: the direct call
  is created in front of the cast call \<open>pInstCall\<close> (with no debug location, which is 0,
  and the calling convention of the cast call), the uses of the cast call become uses of
  it, the cast call drops its operands and is queued for deletion, and the function that
  was called through the cast is erased from the module if nothing uses it any more.
\<close>

definition dropAllReferences :: "nat \<Rightarrow> Module \<Rightarrow> Module" where
  "dropAllReferences a M =
     mapBlocks (map (\<lambda>I. if addr I = a then I\<lparr>ik := mapOperands (\<lambda>v. NullV) (ik I)\<rparr> else I)) M"

definition eraseFunction :: "nat \<Rightarrow> Module \<Rightarrow> Module" where
  "eraseFunction p M = M\<lparr>functionList := filter (\<lambda>f. fptr f \<noteq> p) (functionList M)\<rparr>"

definition redirectCall :: "repairState \<Rightarrow> inst \<Rightarrow> val list \<Rightarrow> nat \<Rightarrow> nat \<Rightarrow> Func \<Rightarrow> repairState" where
  "redirectCall st pInstCall Args cc p pDstFunc =
     (let M = rpModule st;
          newCI = \<lparr>addr = newAddr M, dbgLoc = 0,
                   ik = Call (FuncV (fptr pDstFunc)) (ftype pDstFunc) Args cc\<rparr>;
          M1 = insertBefore (addr pInstCall) [newCI] M;
          M2 = replaceAllUsesWith (addr pInstCall) (addr newCI) M1;
          M3 = dropAllReferences (addr pInstCall) M2;
          M4 = (if use_empty M3 p then eraseFunction p M3 else M3)
      in st\<lparr>rpModule := M4, list_delete := list_delete st @ [addr pInstCall]\<rparr>)"

text \<open>
  The body of the innermost loop for the instruction at address \<open>a\<close>. Every \<^verbatim>\<open>continue\<close>
  of the code, and every test that fails, leaves the state as it is, but for one: when
  the map has no copy with the function type of the call, the new function is created
  in the module before the numbers of parameters are compared, and it stays there when
  they differ.
\<close>

definition repairCall :: "(string list \<Rightarrow> string \<Rightarrow> string) \<Rightarrow> repairState \<Rightarrow> nat \<Rightarrow> repairState" where
  "repairCall uniq st a =
     (let M = rpModule st in
      case findInst M a of
        None \<Rightarrow> st
      | Some pInstCall \<Rightarrow>
          (case ik pInstCall of
             Call cv callTy Args cc \<Rightarrow>
               (case cv of
                  CastExprV v \<Rightarrow>
                    (case stripPointerCasts cv of
                       FuncV p \<Rightarrow>
                         (case getFunctionAt M p of
                            None \<Rightarrow> st
                          | Some funcTobeChanged \<Rightarrow>
                              if isDeclaration funcTobeChanged then st
                              else
                                (case find (\<lambda>F. ftype F = callTy)
                                        (List.map_filter (getFunctionAt M) (bitcastFunctionMap st p)) of
                                   Some pDstFunc \<Rightarrow> redirectCall st pInstCall Args cc p pDstFunc
                                 | None \<Rightarrow>
                                     (let created = Function_Create uniq M callTy
                                                      (linkage funcTobeChanged) (fname funcTobeChanged)
                                      in if length (getParamTypes callTy)
                                              \<noteq> length (getParamTypes (ftype funcTobeChanged))
                                         then st\<lparr>rpModule := M\<lparr>functionList := functionList M @ [created]\<rparr>\<rparr>
                                         else
                                           (let pDstFunc =
                                                  (CloneFunctionInto (newAddr M)
                                                     (created\<lparr>attributes := attributes funcTobeChanged,
                                                              argNames := argNames funcTobeChanged\<rparr>)
                                                     funcTobeChanged)
                                                  \<lparr>callingConv := callingConv funcTobeChanged\<rparr>
                                            in redirectCall
                                                 (st\<lparr>rpModule := M\<lparr>functionList := functionList M @ [pDstFunc]\<rparr>,
                                                     bitcastFunctionMap :=
                                                       (bitcastFunctionMap st)
                                                         (p := bitcastFunctionMap st p @ [fptr pDstFunc])\<rparr>)
                                                 pInstCall Args cc p pDstFunc))))
                     | _ \<Rightarrow> st)
                | _ \<Rightarrow> st)
           | _ \<Rightarrow> st))"

text \<open>
  The loops. The loop over the functions of the module meets the functions that the pass
  appends while it runs. The model takes, as the next function, the first function of
  the module that the loop has not met yet (the functions it has met stand in front of
  the others, since new functions go to the end), and walks the instructions that this
  function has then: while the loop is in a function, instructions are inserted only in
  front of the one it is at. The number of rounds has no bound in the code, so the model
  takes fuel: \<open>None\<close> is "the fuel ran out".
\<close>

fun repairInsts :: "(string list \<Rightarrow> string \<Rightarrow> string) \<Rightarrow> repairState \<Rightarrow> nat list \<Rightarrow> repairState" where
  "repairInsts uniq st [] = st"
| "repairInsts uniq st (a # as) = repairInsts uniq (repairCall uniq st a) as"

fun repairFunctions ::
  "(string list \<Rightarrow> string \<Rightarrow> string) \<Rightarrow> nat \<Rightarrow> nat list \<Rightarrow> repairState \<Rightarrow> repairState option" where
  "repairFunctions uniq 0 met st =
     (case find (\<lambda>f. fptr f \<notin> set met) (functionList (rpModule st)) of
        None \<Rightarrow> Some st
      | Some func \<Rightarrow> None)"
| "repairFunctions uniq (Suc n) met st =
     (case find (\<lambda>f. fptr f \<notin> set met) (functionList (rpModule st)) of
        None \<Rightarrow> Some st
      | Some func \<Rightarrow>
          repairFunctions uniq n (met @ [fptr func])
            (repairInsts uniq st (map addr (concat (body func)))))"

definition removeFunctionBitcasts ::
  "(string list \<Rightarrow> string \<Rightarrow> string) \<Rightarrow> nat \<Rightarrow> Module \<Rightarrow> Module option" where
  "removeFunctionBitcasts uniq n M =
     (case repairFunctions uniq n []
             \<lparr>rpModule = M, list_delete = [], bitcastFunctionMap = (\<lambda>p. [])\<rparr> of
        None \<Rightarrow> None
      | Some st \<Rightarrow> Some (eraseFromParent (list_delete st) (rpModule st)))"

text \<open>
  The end of \<^verbatim>\<open>CMImportBiF\<close>, after the library module is linked in and the flags are
  initialized: signature repair, then the call rewriter.
\<close>

definition rewritePasses ::
  "buildEnv \<Rightarrow> (string list \<Rightarrow> string \<Rightarrow> string) \<Rightarrow> nat \<Rightarrow> Module \<Rightarrow> (error + Module) option" where
  "rewritePasses E uniq n M =
     (case removeFunctionBitcasts uniq n M of
        None \<Rightarrow> None
      | Some M1 \<Rightarrow> Some (runOnModule E M1))"

section \<open>Example modules\<close>

definition mkInst :: "nat \<Rightarrow> instKind \<Rightarrow> inst" where
  "mkInst a k = \<lparr>addr = a, dbgLoc = 0, ik = k\<rparr>"

definition mkFunc :: "nat \<Rightarrow> string \<Rightarrow> FunctionType \<Rightarrow> nat \<Rightarrow> inst list list \<Rightarrow> Func" where
  "mkFunc p n t c b =
     \<lparr>fptr = p, fname = n, ftype = t, linkage = ExternalLinkage, dllExport = False,
      callingConv = c, attributes = 0, argNames = [], body = b, lazyBody = None\<rparr>"

definition mkLazy :: "nat \<Rightarrow> string \<Rightarrow> FunctionType \<Rightarrow> (string + inst list list) \<Rightarrow> Func" where
  "mkLazy p n t l = (mkFunc p n t 0 [])\<lparr>lazyBody := Some l\<rparr>"

definition floatFn :: FunctionType where
  "floatFn = FunctionType FloatTy [FloatTy]"

text \<open>
  A main module: \<open>kernel\<close> calls the defined function \<open>helper\<close>, the declared function
  \<open>ext\<close> (which no library defines) and the declared function \<open>lib_sin\<close>.
\<close>

definition linkMain :: Module where
  "linkMain = \<lparr>functionList =
     [mkFunc 1 ''kernel'' floatFn 7
        [[mkInst 10 (Call (FuncV 2) floatFn [ArgV 0 FloatTy] 0),
          mkInst 11 (Call (FuncV 3) floatFn [InstV 10 FloatTy] 0),
          mkInst 12 (Call (FuncV 4) floatFn [InstV 11 FloatTy] 0)]],
      mkFunc 2 ''helper'' floatFn 3
        [[mkInst 20 (Call (FuncV 3) floatFn [ArgV 0 FloatTy] 5)]],
      mkFunc 3 ''ext'' floatFn 0 [],
      mkFunc 4 ''lib_sin'' floatFn 0 []],
     globalList = []\<rparr>"

text \<open>
  Two library modules: in the first the body of \<open>lib_sin\<close> loads (it calls \<open>lib_poly\<close>,
  whose body loads too); in the second loading \<open>lib_sin\<close> fails.
\<close>

definition linkLib :: Module where
  "linkLib = \<lparr>functionList =
     [mkLazy 1 ''lib_sin'' floatFn
        (Inr [[mkInst 30 (Call (FuncV 2) floatFn [ArgV 0 FloatTy] 0)]]),
      mkLazy 2 ''lib_poly'' floatFn
        (Inr [[mkInst 40 (OtherInst [ArgV 0 FloatTy] FloatTy)]]),
      mkLazy 3 ''lib_unused'' floatFn (Inr [])],
     globalList = []\<rparr>"

definition linkLibBroken :: Module where
  "linkLibBroken = \<lparr>functionList = [mkLazy 1 ''lib_sin'' floatFn (Inl ''corrupt bitcode'')],
     globalList = []\<rparr>"

definition linkStart :: "Module \<Rightarrow> linkState" where
  "linkStart lib = \<lparr>mainModule = linkMain, bifModule = lib, errStream = [], explored = []\<rparr>"

text \<open>
  A library module in which \<open>lib_sin\<close> is already loaded and \<open>lib_poly\<close> is not.
\<close>

definition linkLibHalf :: Module where
  "linkLibHalf = \<lparr>functionList =
     [mkFunc 1 ''lib_sin'' floatFn 9
        [[mkInst 30 (Call (FuncV 2) floatFn [ArgV 0 FloatTy] 0)]],
      mkLazy 2 ''lib_poly'' floatFn
        (Inr [[mkInst 40 (OtherInst [ArgV 0 FloatTy] FloatTy)]])],
     globalList = []\<rparr>"

text \<open>
  A module for the call rewriter. \<open>kernel\<close> calls a builtin of the one-intrinsic table
  twice (the second call uses the result of the first), a builtin of the two-intrinsic
  table, and uses both results in a last instruction. \<open>exampleIT\<close> gives each intrinsic
  the type "first type parameter, from the last one".
\<close>

definition exampleIT :: "IntrinsicID \<Rightarrow> ty list \<Rightarrow> FunctionType" where
  "exampleIT iid tys =
     (case tys of [] \<Rightarrow> FunctionType VoidTy [] | [t] \<Rightarrow> FunctionType t [t]
      | t # u # us \<Rightarrow> FunctionType t [u])"

text \<open>The build with assertions and the build with \<^verbatim>\<open>NDEBUG\<close>.\<close>

definition debugBuild :: buildEnv where
  "debugBuild = \<lparr>intrinsicType = exampleIT, assertsEnabled = True\<rparr>"

definition releaseBuild :: buildEnv where
  "releaseBuild = \<lparr>intrinsicType = exampleIT, assertsEnabled = False\<rparr>"

definition i32FromDouble :: FunctionType where
  "i32FromDouble = FunctionType (IntegerTy 32) [DoubleTy]"

definition cvtMain :: Module where
  "cvtMain = \<lparr>functionList =
     [mkFunc 1 ''kernel'' floatFn 0
        [[mkInst 10 (Call (FuncV 2) floatFn [ArgV 0 FloatTy] 0),
          mkInst 11 (Call (FuncV 3) i32FromDouble [ArgV 1 DoubleTy] 0),
          mkInst 12 (Call (FuncV 2) floatFn [InstV 10 FloatTy] 0),
          mkInst 13 (OtherInst [InstV 12 FloatTy, InstV 11 (IntegerTy 32)] VoidTy)]],
      mkFunc 2 ''__builtin_IB_frnd_ne'' floatFn 0 [],
      mkFunc 3 ''__builtin_IB_dtoi32_rtn'' i32FromDouble 0 []],
     globalList = []\<rparr>"

definition cvtMainOut :: Module where
  "cvtMainOut = \<lparr>functionList =
     [(mkFunc 1 ''kernel'' floatFn 0
        [[mkInst 14 (Call (FuncV 4) floatFn [ArgV 0 FloatTy] 0),
          mkInst 15 (Call (FuncV 5) (FunctionType DoubleTy [DoubleTy]) [ArgV 1 DoubleTy] 0),
          mkInst 16 (Call (FuncV 6) i32FromDouble [InstV 15 DoubleTy] 0),
          mkInst 17 (Call (FuncV 4) floatFn [InstV 14 FloatTy] 0),
          mkInst 13 (OtherInst [InstV 17 FloatTy, InstV 16 (IntegerTy 32)] VoidTy)]])
        \<lparr>linkage := InternalLinkage\<rparr>,
      mkFunc 2 ''__builtin_IB_frnd_ne'' floatFn 0 [],
      mkFunc 3 ''__builtin_IB_dtoi32_rtn'' i32FromDouble 0 [],
      mkFunc 4 ''llvm.genx.rnde.f32'' floatFn 0 [],
      mkFunc 5 ''llvm.genx.rndd.f64'' (FunctionType DoubleTy [DoubleTy]) 0 [],
      mkFunc 6 ''llvm.genx.fptosi.sat.i32.f64'' i32FromDouble 0 []],
     globalList = []\<rparr>"

text \<open>
  A module with a call of \<^verbatim>\<open>llvm.ctlz\<close> on a 64-bit integer, whose result is used, and
  the same module for a 32-bit integer.
\<close>

definition i64Ctlz :: FunctionType where
  "i64Ctlz = FunctionType (IntegerTy 64) [IntegerTy 64, IntegerTy 1]"

definition cvtCtlz64 :: Module where
  "cvtCtlz64 = \<lparr>functionList =
     [mkFunc 1 ''kernel'' (FunctionType VoidTy [IntegerTy 64]) 0
        [[mkInst 10 (Call (FuncV 2) i64Ctlz [ArgV 0 (IntegerTy 64), ConstV 0 (IntegerTy 1)] 0),
          mkInst 11 (OtherInst [InstV 10 (IntegerTy 64)] VoidTy)]],
      mkFunc 2 ''llvm.ctlz.i64'' i64Ctlz 0 []],
     globalList = []\<rparr>"

definition cvtCtlz64Out :: Module where
  "cvtCtlz64Out = \<lparr>functionList =
     [(mkFunc 1 ''kernel'' (FunctionType VoidTy [IntegerTy 64]) 0
        [[mkInst 12 (Call (FuncV 3) (FunctionType (IntegerTy 64) [IntegerTy 64]) [ArgV 0 (IntegerTy 64)] 0),
          mkInst 11 (OtherInst [InstV 12 (IntegerTy 64)] VoidTy)]])
        \<lparr>linkage := InternalLinkage\<rparr>,
      mkFunc 2 ''llvm.ctlz.i64'' i64Ctlz 0 [],
      mkFunc 3 ''llvm.genx.lzd.i64'' (FunctionType (IntegerTy 64) [IntegerTy 64]) 0 []],
     globalList = []\<rparr>"



text \<open>
  A module for signature repair. \<open>kernel\<close> calls the defined function \<open>helper\<close>, of type
  \<open>float (float)\<close>, three times through a cast: twice at the type \<open>i32 (i32)\<close> and once
  at \<open>i32 (i32, i32)\<close>, which has another number of parameters. \<open>exampleUniq\<close> makes a
  new name from the number of names in use.
\<close>

definition exampleUniq :: "string list \<Rightarrow> string \<Rightarrow> string" where
  "exampleUniq used n = n @ ''.'' @ showNat (length used)"


definition i32Fn2 :: FunctionType where
  "i32Fn2 = FunctionType (IntegerTy 32) [IntegerTy 32, IntegerTy 32]"

definition helperFn :: Func where
  "helperFn = mkFunc 2 ''helper'' floatFn 5 [[mkInst 20 (OtherInst [ArgV 0 FloatTy] FloatTy)]]"


definition repairArity :: Module where
  "repairArity = \<lparr>functionList =
     [mkFunc 1 ''kernel'' (FunctionType VoidTy []) 0
        [[mkInst 10 (Call (CastExprV (FuncV 2)) i32Fn2
                       [ConstV 1 (IntegerTy 32), ConstV 2 (IntegerTy 32)] 0),
          mkInst 11 (OtherInst [InstV 10 (IntegerTy 32)] VoidTy)]],
      helperFn],
     globalList = []\<rparr>"

text \<open>
  A module with nothing to rewrite: \<open>kernel\<close> calls the declared function \<open>foo\<close>, and the
  module has a global variable with an initializer.
\<close>

definition cvtPlain :: Module where
  "cvtPlain = \<lparr>functionList =
     [mkFunc 1 ''kernel'' floatFn 0
        [[mkInst 10 (Call (FuncV 2) floatFn [ArgV 0 FloatTy] 0),
          mkInst 11 (OtherInst [InstV 10 FloatTy] VoidTy)]],
      mkFunc 2 ''foo'' floatFn 0 []],
     globalList = [\<lparr>gname = ''table'', glinkage = ExternalLinkage, initializer = Some 7\<rparr>]\<rparr>"

section \<open>Auxiliary notions for the proofs\<close>

definition loadErrors :: "linkState \<Rightarrow> string set" where
  "loadErrors st =
     {msg. \<exists>f \<in> set (functionList (mainModule st)) \<union> set (functionList (bifModule st)).
             lazyBody f = Some (Inl msg)}"

definition sameOrAborted :: "linkState \<Rightarrow> linkState \<Rightarrow> (error + linkState) option \<Rightarrow> bool" where
  "sameOrAborted st st' res =
     ((errStream st' = errStream st \<and> res = Some (Inr st'))
      \<or> (\<exists>msg rest.
            errStream st' = errStream st @ ''===> Materialize Failure: '' @ msg @ [CHR 0x0A] @ rest
            \<and> res = Some (Inl (AssertFail (''===> Materialize Failure: '' @ msg @ [CHR 0x0A])
                                 ''Failed to materialize Global Variables''))))"

definition addrs :: "Module \<Rightarrow> nat list" where
  "addrs M = map addr (allInsts M)"

definition renameBy :: "(nat \<Rightarrow> nat option) \<Rightarrow> val \<Rightarrow> val" where
  "renameBy \<rho> v =
     (case v of InstV a t \<Rightarrow> (case \<rho> a of Some r \<Rightarrow> InstV r t | None \<Rightarrow> v) | _ \<Rightarrow> v)"

definition renameI :: "(val \<Rightarrow> val) \<Rightarrow> inst \<Rightarrow> inst" where
  "renameI g I = I\<lparr>ik := mapOperands g (ik I)\<rparr>"

definition sigs :: "Module \<Rightarrow> (nat \<times> string \<times> FunctionType) list" where
  "sigs M = map (\<lambda>f. (fptr f, fname f, ftype f)) (functionList M)"

fun operands :: "instKind \<Rightarrow> val list" where
  "operands (Call cv fty args cc) = cv # args"
| "operands (SIToFP v t) = [v]"
| "operands (UIToFP v t) = [v]"
| "operands (FMul a b) = [a, b]"
| "operands (FAdd a b) = [a, b]"
| "operands (OtherInst ops t) = ops"

definition declsExt :: "Module \<Rightarrow> Module \<Rightarrow> bool" where
  "declsExt M M1 = (globalList M1 = globalList M \<and>
     (\<exists>ds. functionList M1 = functionList M @ ds \<and> (\<forall>d \<in> set ds. body d = [] \<and> lazyBody d = None)))"

definition seg :: "(nat \<Rightarrow> nat option) \<Rightarrow> (nat \<Rightarrow> inst list) \<Rightarrow> inst \<Rightarrow> inst list" where
  "seg \<rho> tm J = map (renameI (renameBy \<rho>)) (tm (addr J) @ [J])"

definition shaped :: "Module \<Rightarrow> (inst \<Rightarrow> inst list) \<Rightarrow> Module \<Rightarrow> bool" where
  "shaped M0 sg Mc =
     (globalList Mc = globalList M0 \<and>
      (\<exists>ds. functionList Mc =
              map (\<lambda>f. f\<lparr>body := map (\<lambda>blk. concat (map sg blk)) (body f)\<rparr>) (functionList M0) @ ds
            \<and> (\<forall>d \<in> set ds. body d = [] \<and> lazyBody d = None)))"

definition sigsExt :: "Module \<Rightarrow> Module \<Rightarrow> bool" where
  "sigsExt A B = (\<exists>xs. sigs B = sigs A @ xs)"

definition visited ::
  "buildEnv \<Rightarrow> Module \<Rightarrow> Module \<Rightarrow> nat list \<Rightarrow> (nat \<Rightarrow> nat option) \<Rightarrow> (nat \<Rightarrow> inst list) \<Rightarrow> inst \<Rightarrow> bool" where
  "visited E M0 Mc LD \<rho> tm J0 =
     (\<exists>Ma. sigsExt M0 Ma \<and> set (addrs M0) \<subseteq> set (addrs Ma) \<and>
        (case lowerCall E Ma J0 of
           None \<Rightarrow> tm (addr J0) = [] \<and> addr J0 \<notin> set LD \<and> \<rho> (addr J0) = None
         | Some (Inl e) \<Rightarrow> False
         | Some (Inr (M1, news)) \<Rightarrow>
             tm (addr J0) = news \<and> addr J0 \<in> set LD \<and> sigsExt M1 Mc \<and>
             (if news = [] then \<rho> (addr J0) = None
              else \<rho> (addr J0) = Some (addr (last news)) \<and> instType (last news) = instType J0)))"

definition Inv ::
  "buildEnv \<Rightarrow> Module \<Rightarrow> nat set \<Rightarrow> cvtState \<Rightarrow> (nat \<Rightarrow> nat option) \<Rightarrow> (nat \<Rightarrow> inst list) \<Rightarrow> bool" where
  "Inv E M0 V st \<rho> tm =
     (shaped M0 (seg \<rho> tm) (cvtModule st) \<and> V \<subseteq> set (addrs M0) \<and> set (ListDelete st) \<subseteq> V
      \<and> dom \<rho> \<subseteq> set (ListDelete st)
      \<and> (\<forall>a r. \<rho> a = Some r \<longrightarrow> r \<notin> set (addrs M0))
      \<and> (\<forall>a N. N \<in> set (tm a) \<longrightarrow> addr N \<notin> set (addrs M0))
      \<and> (\<forall>a. a \<notin> V \<longrightarrow> tm a = [])
      \<and> (\<forall>J0 \<in> set (allInsts M0). addr J0 \<in> V \<longrightarrow> visited E M0 (cvtModule st) (ListDelete st) \<rho> tm J0))"

definition out :: "(nat \<Rightarrow> nat option) \<Rightarrow> (nat \<Rightarrow> inst list) \<Rightarrow> nat set \<Rightarrow> inst \<Rightarrow> inst list" where
  "out \<rho> tm D J =
     (if addr J \<in> D then map (renameI (renameBy \<rho>)) (tm (addr J)) else [renameI (renameBy \<rho>) J])"

text \<open>
  What the rewriter makes of a module. \<open>rewritten E M M' \<rho> tr\<close> holds when \<open>M'\<close> is \<open>M\<close>
  with each instruction \<open>J\<close> replaced by the instructions \<open>tr J\<close>, with declarations
  without a body added behind the functions of \<open>M\<close>, and with the linkage set by the last
  two loops of the pass; nothing else differs. For an instruction on which no case of the
  loop body applies (\<open>lowerCall\<close> is \<open>None\<close>), \<open>tr J\<close> is \<open>J\<close> itself, at its address, with
  its operands renamed by \<open>\<rho>\<close>. For an instruction on which a case applies, \<open>J\<close> is not
  in \<open>M'\<close>, \<open>tr J\<close> consists of instructions that \<open>M\<close> does not have, and \<open>\<rho>\<close> maps the
  address of \<open>J\<close> to the address of the last of them. \<open>\<rho>\<close> renames deleted instructions
  only, and no operand in \<open>M'\<close> refers to an instruction that \<open>\<rho>\<close> renames.

  A call is \<open>dangling\<close> when the function it calls is not in the module, which no module
  of LLVM has. \<open>matchesName\<close> is the disjunction of the tests of the loop body on the
  name of the callee.
\<close>

definition dangling :: "Module \<Rightarrow> inst \<Rightarrow> bool" where
  "dangling M J = (\<exists>g fty args cc. ik J = Call (FuncV g) fty args cc \<and> getFunctionAt M g = None)"

definition matchesName :: "string \<Rightarrow> bool" where
  "matchesName n =
     (lookupIntrinsicID n = lifetime_start \<or> lookupIntrinsicID n = lifetime_end
      \<or> lookupIntrinsicID n = ctlz
      \<or> OneMap n \<noteq> None \<or> TwoMap n \<noteq> None
      \<or> startswith n ''__builtin_IB_itof'' \<or> startswith n ''__builtin_IB_uitof''
      \<or> startswith n ''__builtin_IB_mul_rtz'' \<or> startswith n ''__builtin_IB_add_rtz'')"

definition rewritten ::
  "buildEnv \<Rightarrow> Module \<Rightarrow> Module \<Rightarrow> (nat \<Rightarrow> nat option) \<Rightarrow> (inst \<Rightarrow> inst list) \<Rightarrow> bool" where
  "rewritten E M M' \<rho> tr =
     ((\<exists>Mx. M' = internalize Mx \<and> shaped M tr Mx)
      \<and> (\<forall>J \<in> set (allInsts M).
            (lowerCall E M J = None \<longrightarrow> \<not> dangling M J \<longrightarrow> tr J = [renameI (renameBy \<rho>) J])
            \<and> (lowerCall E M J \<noteq> None \<longrightarrow>
                  addr J \<notin> set (addrs M') \<and> (\<forall>X \<in> set (tr J). addr X \<notin> set (addrs M))
                  \<and> \<rho> (addr J) = (if tr J = [] then None else Some (addr (last (tr J)))))
            \<and> (tr J = [renameI (renameBy \<rho>) J]
                \<or> (addr J \<notin> set (addrs M') \<and> (\<forall>X \<in> set (tr J). addr X \<notin> set (addrs M)))))
      \<and> (\<forall>a r. \<rho> a = Some r \<longrightarrow> a \<in> set (addrs M) \<and> a \<notin> set (addrs M') \<and> r \<notin> set (addrs M))
      \<and> (\<forall>X \<in> set (allInsts M'). \<forall>a \<in> dom \<rho>. \<forall>t. InstV a t \<notin> set (operands (ik X))))"

text \<open>
  \<open>bitcastCall M J\<close>: the instruction \<open>J\<close> is a call through a cast of a function of the
  module that is more than a declaration, which is what signature repair looks for.
\<close>

definition bitcastCall :: "Module \<Rightarrow> inst \<Rightarrow> bool" where
  "bitcastCall M J =
     (case ik J of
        Call cv fty args cc \<Rightarrow>
          (case cv of
             CastExprV v \<Rightarrow>
               (case stripPointerCasts cv of
                  FuncV p \<Rightarrow>
                    (case getFunctionAt M p of Some f \<Rightarrow> \<not> isDeclaration f | None \<Rightarrow> False)
                | _ \<Rightarrow> False)
           | _ \<Rightarrow> False)
      | _ \<Rightarrow> False)"

text \<open>
  For the map of copies of signature repair. \<open>castTargets M\<close> are the functions that an
  operand of the module reaches through a cast, \<open>copyPtrs st\<close> the copies made so far.
  \<open>wfRepair st\<close> is the invariant of the pass on a module in which functions have
  distinct addresses and every function reached through a cast is in the module: the
  copies are in the module, none is reached through a cast (so none is ever erased), and
  the copies of one function are distinct and have pairwise distinct function types.
  \<open>steps uniq st st'\<close> holds when \<open>st'\<close> comes from \<open>st\<close> by steps of the loop body.
\<close>

definition fptrs :: "Module \<Rightarrow> nat set" where
  "fptrs M = fptr ` set (functionList M)"

definition castsIn :: "inst list \<Rightarrow> nat set" where
  "castsIn Is =
     {p. \<exists>I \<in> set Is. \<exists>v \<in> set (operandsOf (ik I)). \<exists>w. v = CastExprV w \<and> refersTo p v}"


definition copyPtrs :: "repairState \<Rightarrow> nat set" where
  "copyPtrs st = (\<Union>p. set (bitcastFunctionMap st p))"

definition typeAt :: "Module \<Rightarrow> nat \<Rightarrow> FunctionType option" where
  "typeAt M q = map_option ftype (getFunctionAt M q)"


inductive steps :: "(string list \<Rightarrow> string \<Rightarrow> string) \<Rightarrow> repairState \<Rightarrow> repairState \<Rightarrow> bool"
  for uniq :: "string list \<Rightarrow> string \<Rightarrow> string" where
  steps_refl: "steps uniq st st"
| steps_step: "steps uniq st st' \<Longrightarrow> steps uniq st (repairCall uniq st' a)"

section \<open>Properties of the demand-driven linker\<close>


text \<open>
  Claim C8. In the loop of \<^verbatim>\<open>Explore\<close> over the callees of a root, a callee that is only
  declared and for whose name the library module has no function that is more than a
  declaration is skipped: the loop goes on with the next callee in the very same state,
  so nothing is raised and no instruction or function of either module changes.
\<close>

theorem unresolved_callee_skipped:
  assumes "getFunctionAt (moduleOf st (fst root)) c = Some pCallee"
    and "isDeclaration pCallee"
    and "GetBuiltinFunction (fname pCallee) (bifModule st) = None"
  shows "exploreCallees E n st root (c # cs) = exploreCallees E n st root cs"
  using assms by (simp add: resolveCallee_def)

theorem unresolved_callee_skipped_witness:
  "getFunctionAt (moduleOf (linkStart linkLib) InMain) 3 = Some (mkFunc 3 ''ext'' floatFn 0 [])
   \<and> isDeclaration (mkFunc 3 ''ext'' floatFn 0 [])
   \<and> GetBuiltinFunction (fname (mkFunc 3 ''ext'' floatFn 0 [])) (bifModule (linkStart linkLib)) = None
   \<and> exploreCallees debugBuild 4 (linkStart linkLib) (InMain, 1) [3, 4]
       = exploreCallees debugBuild 4 (linkStart linkLib) (InMain, 1) [4]"
proof -
  have h1: "getFunctionAt (moduleOf (linkStart linkLib) (fst (InMain, 1::nat))) 3
              = Some (mkFunc 3 ''ext'' floatFn 0 [])"
    by code_simp
  have h2: "isDeclaration (mkFunc 3 ''ext'' floatFn 0 [])"
    by code_simp
  have h3: "GetBuiltinFunction (fname (mkFunc 3 ''ext'' floatFn 0 [])) (bifModule (linkStart linkLib)) = None"
    by code_simp
  from unresolved_callee_skipped [OF h1 h2 h3, of debugBuild 4 "[4]"] h1 h2 h3
  show ?thesis by simp
qed

text \<open>
  Loading a body and walking a function never add a function whose body fails to load:
  the failure messages present in a state after a step were present before it. The walk
  aborts only in a build with assertions, and then with the diagnostic of one of them.
\<close>

lemma find_SomeD: "find P xs = Some x \<Longrightarrow> P x \<and> x \<in> set xs"
  by (induction xs) (auto split: if_splits)

lemma lazyBody_updateFunction:
  assumes "\<And>f. lazyBody (g f) = lazyBody f \<or> lazyBody (g f) = None"
    and "f' \<in> set (functionList (updateFunction p g M))"
    and "lazyBody f' = Some (Inl msg)"
  shows "\<exists>f \<in> set (functionList M). lazyBody f = Some (Inl msg)"
proof -
  from assms(2) obtain f where f: "f \<in> set (functionList M)"
      and f': "f' = (if fptr f = p then g f else f)"
    by (auto simp: updateFunction_def)
  show ?thesis
  proof (cases "fptr f = p")
    case True
    with f' assms(3) have "lazyBody (g f) = Some (Inl msg)" by simp
    with assms(1) [of f] have "lazyBody f = Some (Inl msg)" by auto
    with f show ?thesis by blast
  next
    case False
    with f f' assms(3) show ?thesis by auto
  qed
qed

lemma loadErrors_setModule_update:
  assumes "\<And>f. lazyBody (g f) = lazyBody f \<or> lazyBody (g f) = None"
  shows "loadErrors (setModule m (updateFunction p g (moduleOf st m)) st) \<subseteq> loadErrors st"
proof (cases m)
  case InMain
  show ?thesis
    unfolding InMain
    using lazyBody_updateFunction [OF assms, of _ p "mainModule st"]
    by (fastforce simp: loadErrors_def setModule_def moduleOf_def)
next
  case InBiF
  show ?thesis
    unfolding InBiF
    using lazyBody_updateFunction [OF assms, of _ p "bifModule st"]
    by (fastforce simp: loadErrors_def setModule_def moduleOf_def)
qed

lemma resolveCallee_mem:
  assumes "resolveCallee st m pCallee = Some (m', pFunc)"
    and "pCallee \<in> set (functionList (moduleOf st m))"
  shows "pFunc \<in> set (functionList (moduleOf st m'))"
proof (cases "isDeclaration pCallee")
  case True
  with assms(1) obtain q where "getFunction (bifModule st) (fname pCallee) = Some q"
      and "m' = InBiF" and "pFunc = q"
    by (auto simp: resolveCallee_def GetBuiltinFunction_def split: option.splits if_splits)
  then show ?thesis
    by (auto simp: getFunction_def moduleOf_def dest: find_SomeD)
next
  case False
  with assms show ?thesis by (simp add: resolveCallee_def)
qed

lemma loadErrors_explored [simp]: "loadErrors (st\<lparr>explored := xs\<rparr>) = loadErrors st"
  by (simp add: loadErrors_def)

lemma getFunctionAt_mem: "getFunctionAt M p = Some f \<Longrightarrow> f \<in> set (functionList M) \<and> fptr f = p"
  by (auto simp: getFunctionAt_def find_Some_iff)

lemma materialize_Inl:
  "materialize f = Inl msg \<Longrightarrow> lazyBody f = Some (Inl msg)"
  by (auto simp: materialize_def split: option.splits sum.splits)

lemma materialize_Inr:
  "materialize f = Inr g \<Longrightarrow> isMaterializable f \<Longrightarrow> lazyBody g = None"
  by (auto simp: materialize_def isMaterializable_def split: option.splits sum.splits)

lemma mem_loadErrors:
  "f \<in> set (functionList (moduleOf st m)) \<Longrightarrow> lazyBody f = Some (Inl msg) \<Longrightarrow> msg \<in> loadErrors st"
  by (cases m) (auto simp: loadErrors_def moduleOf_def)

lemma loadErrors_errStream [simp]: "loadErrors (st\<lparr>errStream := xs\<rparr>) = loadErrors st"
  by (simp add: loadErrors_def)

lemma walk_errors:
  "(\<forall>e. Explore E n st root = Some (Inl e) \<longrightarrow>
      assertsEnabled E \<and> (\<exists>msg \<in> loadErrors st.
         e = AssertFail (''===> Materialize Failure: '' @ msg @ [CHR 0x0A]) ''Failed to materialize Global Variables''))
   \<and> (\<forall>st'. Explore E n st root = Some (Inr st') \<longrightarrow> loadErrors st' \<subseteq> loadErrors st)"
  "(\<forall>e. exploreCallees E n st root cs = Some (Inl e) \<longrightarrow>
      assertsEnabled E \<and> (\<exists>msg \<in> loadErrors st.
         e = AssertFail (''===> Materialize Failure: '' @ msg @ [CHR 0x0A]) ''Failed to materialize Global Variables''))
   \<and> (\<forall>st'. exploreCallees E n st root cs = Some (Inr st') \<longrightarrow> loadErrors st' \<subseteq> loadErrors st)"
proof (induction E n st root and E n st root cs rule: Explore_exploreCallees.induct)
  case (1 E st root)
  show ?case by simp
next
  case (2 E n st root)
  show ?case
  proof (cases "getFunctionAt (moduleOf st (fst root)) (snd root)")
    case None
    then show ?thesis by simp
  next
    case (Some pRoot)
    obtain M' called where g: "GetCalledFunctions (moduleOf st (fst root)) pRoot = (M', called)"
      by (cases "GetCalledFunctions (moduleOf st (fst root)) pRoot")
    let ?st1 = "(setModule (fst root) M' st)\<lparr>explored := explored st @ [root]\<rparr>"
    have M': "M' = updateFunction (fptr pRoot)
        (\<lambda>f. f\<lparr>body := map (map (setCallingConv (callingConv pRoot))) (body f)\<rparr>) (moduleOf st (fst root))"
      using g by (simp add: GetCalledFunctions_def)
    have "loadErrors (setModule (fst root) M' st) \<subseteq> loadErrors st"
      unfolding M' by (rule loadErrors_setModule_update) simp
    moreover have "loadErrors ?st1 = loadErrors (setModule (fst root) M' st)"
      by (cases "fst root") (simp_all add: setModule_def loadErrors_def)
    ultimately have sub: "loadErrors ?st1 \<subseteq> loadErrors st" by simp
    have eq: "Explore E (Suc n) st root = exploreCallees E n ?st1 root called"
      using Some g by simp
    note ih = "2.IH" [OF Some g [symmetric]]
    show ?thesis unfolding eq using ih sub by blast
  qed
next
  case (3 E n st root)
  show ?case by simp
next
  case (4 E n st root c cs)
  show ?case
  proof (cases "getFunctionAt (moduleOf st (fst root)) c")
    case None
    with "4.IH"(1) show ?thesis by simp
  next
    case (Some pCallee)
    note callee = Some
    show ?thesis
    proof (cases "resolveCallee st (fst root) pCallee")
      case None
      with callee "4.IH"(2) show ?thesis by simp
    next
      case (Some r)
      obtain m pFunc where r: "r = (m, pFunc)" by (cases r)
      note res = Some [unfolded r]
      have mem: "pFunc \<in> set (functionList (moduleOf st m))"
        using resolveCallee_mem [OF res] getFunctionAt_mem [OF callee] by simp
      show ?thesis
      proof (cases "isMaterializable pFunc")
        case False
        with callee res "4.IH"(7) [OF callee res refl] show ?thesis by simp
      next
        case True
        note mat = True
        show ?thesis
        proof (cases "materialize pFunc")
          case (Inl msg)
          have msg: "msg \<in> loadErrors st"
            using mem_loadErrors [OF mem materialize_Inl [OF Inl]] .
          show ?thesis
          proof (cases "assertsEnabled E")
            case True
            with callee res mat Inl msg show ?thesis by auto
          next
            case False
            note ih = "4.IH"(3) [OF callee res refl mat Inl False]
            have eq: "exploreCallees E n st root (c # cs) =
                exploreCallees E n (st\<lparr>errStream := errStream st @ ''===> Materialize Failure: '' @ msg @ [CHR 0x0A]\<rparr>) root cs"
              using callee res mat Inl False by simp
            show ?thesis unfolding eq using ih by simp
          qed
        next
          case (Inr loaded)
          show ?thesis
          proof (cases "getFunctionAt (moduleOf st (fst root)) (snd root)")
            case None
            with callee res mat Inr "4.IH"(4) [OF callee res refl mat Inr None] show ?thesis by simp
          next
            case (Some pRoot)
            let ?st1 = "setModule m (updateFunction (fptr pFunc)
                          (\<lambda>f. loaded\<lparr>callingConv := callingConv pRoot\<rparr>) (moduleOf st m)) st"
            have sub: "loadErrors ?st1 \<subseteq> loadErrors st"
              by (rule loadErrors_setModule_update) (simp add: materialize_Inr [OF Inr mat])
            note ih1 = "4.IH"(5) [OF callee res refl mat Inr Some]
            show ?thesis
            proof (cases "Explore E n ?st1 (m, fptr pFunc)")
              case None
              with callee res mat Inr Some show ?thesis by simp
            next
              case (Some out)
              note ex = Some
              show ?thesis
              proof (cases out)
                case (Inl e)
                with ih1 ex sub callee res mat Inr \<open>getFunctionAt (moduleOf st (fst root)) (snd root) = Some pRoot\<close>
                show ?thesis by auto
              next
                case (Inr st')
                note ih2 = "4.IH"(6) [OF callee res refl mat \<open>materialize pFunc = Inr loaded\<close>
                    \<open>getFunctionAt (moduleOf st (fst root)) (snd root) = Some pRoot\<close> ex [unfolded Inr] refl]
                have s1: "loadErrors st' \<subseteq> loadErrors st"
                  using ih1 ex Inr sub by auto
                have eq: "exploreCallees E n st root (c # cs) = exploreCallees E n st' root cs"
                  using callee res mat \<open>materialize pFunc = Inr loaded\<close>
                    \<open>getFunctionAt (moduleOf st (fst root)) (snd root) = Some pRoot\<close> ex Inr by simp
                show ?thesis unfolding eq using ih2 s1 by blast
              qed
            qed
          qed
        qed
      qed
    qed
  qed
qed

text \<open>
  The build without assertions against the build with them. When the walk of the first
  returns, either it has printed nothing and the walk of the second returns the same
  state, or the walk of the second has aborted with the first diagnostic printed.
\<close>

lemma sameOrAborted_refl [simp]: "sameOrAborted st st (Some (Inr st))"
  by (simp add: sameOrAborted_def)

lemma sameOrAborted_start:
  "errStream st1 = errStream st \<Longrightarrow> sameOrAborted st1 st' res \<Longrightarrow> sameOrAborted st st' res"
  by (simp add: sameOrAborted_def)

lemma sameOrAborted_grows: "sameOrAborted st st' res \<Longrightarrow> \<exists>rest. errStream st' = errStream st @ rest"
  by (auto simp: sameOrAborted_def)

lemma sameOrAborted_bind:
  assumes "sameOrAborted a b r1" and "sameOrAborted b c (k b)"
  shows "sameOrAborted a c (case r1 of None \<Rightarrow> None | Some (Inl e) \<Rightarrow> Some (Inl e) | Some (Inr x) \<Rightarrow> k x)"
proof -
  from assms(1) consider "errStream b = errStream a" "r1 = Some (Inr b)"
    | msg rest where "errStream b = errStream a @ ''===> Materialize Failure: '' @ msg @ [CHR 0x0A] @ rest"
        "r1 = Some (Inl (AssertFail (''===> Materialize Failure: '' @ msg @ [CHR 0x0A]) ''Failed to materialize Global Variables''))"
    unfolding sameOrAborted_def by blast
  then show ?thesis
  proof cases
    case 1
    then show ?thesis using assms(2) by (simp add: sameOrAborted_def)
  next
    case 2
    from sameOrAborted_grows [OF assms(2)] obtain rest2 where "errStream c = errStream b @ rest2" by blast
    with 2 have "errStream c = errStream a @ ''===> Materialize Failure: '' @ msg @ [CHR 0x0A] @ (rest @ rest2)"
      by simp
    with 2(2) show ?thesis unfolding sameOrAborted_def by (simp del: append_assoc)
  qed
qed

lemma sameOrAborted_failed:
  assumes "sameOrAborted (st\<lparr>errStream := errStream st @ ''===> Materialize Failure: '' @ msg @ [CHR 0x0A]\<rparr>) st' res"
  shows "sameOrAborted st st'
     (Some (Inl (AssertFail (''===> Materialize Failure: '' @ msg @ [CHR 0x0A]) ''Failed to materialize Global Variables'')))"
proof -
  from sameOrAborted_grows [OF assms] obtain rest where
    "errStream st' = errStream st @ ''===> Materialize Failure: '' @ msg @ [CHR 0x0A] @ rest" by auto
  then show ?thesis unfolding sameOrAborted_def by blast
qed

lemma errStream_setModule [simp]: "errStream (setModule m M st) = errStream st"
  by (cases m) (simp_all add: setModule_def)

lemma walk_release_debug:
  "\<not> assertsEnabled R \<longrightarrow> assertsEnabled D \<longrightarrow>
     (\<forall>st'. Explore R n st root = Some (Inr st') \<longrightarrow> sameOrAborted st st' (Explore D n st root))"
  "\<not> assertsEnabled R \<longrightarrow> assertsEnabled D \<longrightarrow>
     (\<forall>st'. exploreCallees R n st root cs = Some (Inr st') \<longrightarrow> sameOrAborted st st' (exploreCallees D n st root cs))"
proof (induction R n st root and R n st root cs rule: Explore_exploreCallees.induct)
  case (1 R st root)
  show ?case by simp
next
  case (2 R n st root)
  show ?case
  proof (cases "getFunctionAt (moduleOf st (fst root)) (snd root)")
    case None
    then show ?thesis by simp
  next
    case (Some pRoot)
    obtain M' called where g: "GetCalledFunctions (moduleOf st (fst root)) pRoot = (M', called)"
      by (cases "GetCalledFunctions (moduleOf st (fst root)) pRoot")
    let ?st1 = "(setModule (fst root) M' st)\<lparr>explored := explored st @ [root]\<rparr>"
    have eq: "Explore X (Suc n) st root = exploreCallees X n ?st1 root called" for X
      using Some g by simp
    have es: "errStream ?st1 = errStream st" by simp
    note ih = "2.IH" [OF Some g [symmetric]]
    show ?thesis unfolding eq using ih sameOrAborted_start [OF es] by blast
  qed
next
  case (3 R n st root)
  show ?case by simp
next
  case (4 R n st root c cs)
  show ?case
  proof (intro impI allI)
    fix st'
    assume nR: "\<not> assertsEnabled R" and aD: "assertsEnabled D"
      and run: "exploreCallees R n st root (c # cs) = Some (Inr st')"
    show "sameOrAborted st st' (exploreCallees D n st root (c # cs))"
    proof (cases "getFunctionAt (moduleOf st (fst root)) c")
      case None
      with "4.IH"(1) [OF None] nR aD run show ?thesis by simp
    next
      case (Some pCallee)
      note callee = Some
      show ?thesis
      proof (cases "resolveCallee st (fst root) pCallee")
        case None
        with callee "4.IH"(2) [OF callee None] nR aD run show ?thesis by simp
      next
        case (Some r)
        obtain m pFunc where r: "r = (m, pFunc)" by (cases r)
        note res = Some [unfolded r]
        show ?thesis
        proof (cases "isMaterializable pFunc")
          case False
          with callee res "4.IH"(7) [OF callee res refl False] nR aD run show ?thesis by simp
        next
          case True
          note mat = True
          show ?thesis
          proof (cases "materialize pFunc")
            case (Inl msg)
            let ?st2 = "st\<lparr>errStream := errStream st @ ''===> Materialize Failure: '' @ msg @ [CHR 0x0A]\<rparr>"
            have r2: "exploreCallees R n ?st2 root cs = Some (Inr st')"
              using run callee res mat Inl nR by simp
            have "sameOrAborted ?st2 st' (exploreCallees D n ?st2 root cs)"
              using "4.IH"(3) [OF callee res refl mat Inl nR] nR aD r2 by blast
            from sameOrAborted_failed [OF this]
            show ?thesis using callee res mat Inl aD by simp
          next
            case (Inr loaded)
            show ?thesis
            proof (cases "getFunctionAt (moduleOf st (fst root)) (snd root)")
              case None
              with callee res mat Inr "4.IH"(4) [OF callee res refl mat Inr None] nR aD run
              show ?thesis by simp
            next
              case (Some pRoot)
              note root = Some
              let ?st1 = "setModule m (updateFunction (fptr pFunc)
                            (\<lambda>f. loaded\<lparr>callingConv := callingConv pRoot\<rparr>) (moduleOf st m)) st"
              have eq: "exploreCallees X n st root (c # cs) =
                  (case Explore X n ?st1 (m, fptr pFunc) of
                     None \<Rightarrow> None
                   | Some (Inl e) \<Rightarrow> Some (Inl e)
                   | Some (Inr x) \<Rightarrow> exploreCallees X n x root cs)" for X
                using callee res mat Inr root by simp
              from run [unfolded eq] obtain st2 where
                e1: "Explore R n ?st1 (m, fptr pFunc) = Some (Inr st2)"
                and e2: "exploreCallees R n st2 root cs = Some (Inr st')"
                by (auto split: option.splits sum.splits)
              have s1: "sameOrAborted ?st1 st2 (Explore D n ?st1 (m, fptr pFunc))"
                using "4.IH"(5) [OF callee res refl mat Inr root] nR aD e1 by blast
              have s1': "sameOrAborted st st2 (Explore D n ?st1 (m, fptr pFunc))"
                by (rule sameOrAborted_start [OF _ s1]) simp
              have s2: "sameOrAborted st2 st' (exploreCallees D n st2 root cs)"
                using "4.IH"(6) [OF callee res refl mat Inr root e1 refl] nR aD e2 by blast
              show ?thesis
                unfolding eq by (rule sameOrAborted_bind [where k = "\<lambda>x. exploreCallees D n x root cs", OF s1' s2])
            qed
          qed
        qed
      qed
    qed
  qed
qed

lemma roots_release_debug:
  assumes "\<not> assertsEnabled R" and "assertsEnabled D"
  shows "exploreRoots R n st ps = Some (Inr st') \<Longrightarrow> sameOrAborted st st' (exploreRoots D n st ps)"
proof (induction ps arbitrary: st)
  case Nil
  then show ?case by simp
next
  case (Cons p ps)
  from Cons.prems obtain st2 where
    e1: "Explore R n st (InMain, p) = Some (Inr st2)"
    and e2: "exploreRoots R n st2 ps = Some (Inr st')"
    by (auto split: option.splits sum.splits)
  have s1: "sameOrAborted st st2 (Explore D n st (InMain, p))"
    using walk_release_debug(1) [of R D n st "(InMain, p)"] assms e1 by blast
  have s2: "sameOrAborted st2 st' (exploreRoots D n st2 ps)"
    by (rule Cons.IH [OF e2])
  have "exploreRoots D n st (p # ps) =
      (case Explore D n st (InMain, p) of
         None \<Rightarrow> None
       | Some (Inl e) \<Rightarrow> Some (Inl e)
       | Some (Inr x) \<Rightarrow> exploreRoots D n x ps)"
    by simp
  then show ?case using sameOrAborted_bind [where k = "\<lambda>x. exploreRoots D n x ps", OF s1 s2] by simp
qed

lemma roots_fatal_is_load_failure:
  assumes "exploreRoots E n st ps = Some (Inl e)"
  shows "assertsEnabled E \<and> (\<exists>msg \<in> loadErrors st.
     e = AssertFail (''===> Materialize Failure: '' @ msg @ [CHR 0x0A]) ''Failed to materialize Global Variables'')"
  using assms
proof (induction ps arbitrary: st)
  case Nil
  then show ?case by simp
next
  case (Cons p ps)
  show ?case
  proof (cases "Explore E n st (InMain, p)")
    case None
    with Cons.prems show ?thesis by simp
  next
    case (Some out)
    show ?thesis
    proof (cases out)
      case (Inl e')
      with Some Cons.prems have "e' = e" by simp
      with Some Inl walk_errors(1) [of E n st "(InMain, p)"] show ?thesis by blast
    next
      case (Inr st')
      with Some Cons.prems have "exploreRoots E n st' ps = Some (Inl e)" by simp
      from Cons.IH [OF this] obtain msg where a: "assertsEnabled E" and "msg \<in> loadErrors st'"
        "e = AssertFail (''===> Materialize Failure: '' @ msg @ [CHR 0x0A]) ''Failed to materialize Global Variables''"
        by blast
      moreover have "loadErrors st' \<subseteq> loadErrors st"
        using Some Inr walk_errors(1) [of E n st "(InMain, p)"] by blast
      ultimately show ?thesis by blast
    qed
  qed
qed


text \<open>
  Claim C6. When the function a callee resolves to is materializable, its body is loaded.
  If loading fails with the message \<open>msg\<close>, the line
  \<^verbatim>\<open>===> Materialize Failure: \<close>\<open>msg\<close> is printed and the failed assertion follows. In a build with
  assertions the loop over the callees ends there with the abort that carries this line:
  the callees after it are not visited and no state is returned. In a build without
  assertions the loop goes on with the next callee, the line added to the error stream
  and nothing else changed. If loading succeeds, the loaded function gets the calling
  convention of the root and \<^verbatim>\<open>Explore\<close> runs on it, in the state that holds the loaded
  body; an abort of that run is the result of the loop, and otherwise the loop goes on
  with the next callee.

  For the walk as a whole: it aborts only in a build with assertions, and only with the
  line of a function of the two modules whose body fails to load. When the walk of a build
  without assertions returns, then either it has printed nothing and the walk of a build
  with assertions returns the same state, or it has printed a first line and the walk of
  a build with assertions has aborted with that line.
\<close>

theorem load_failure_fatal_only_with_assertions:
  assumes "getFunctionAt (moduleOf st (fst root)) c = Some pCallee"
    and "resolveCallee st (fst root) pCallee = Some (m, pFunc)"
    and "isMaterializable pFunc"
    and "getFunctionAt (moduleOf st (fst root)) (snd root) = Some pRoot"
  shows "(\<forall>msg. materialize pFunc = Inl msg \<longrightarrow>
            exploreCallees E n st root (c # cs) =
              (if assertsEnabled E
               then Some (Inl (AssertFail (''===> Materialize Failure: '' @ msg @ [CHR 0x0A])
                                 ''Failed to materialize Global Variables''))
               else exploreCallees E n
                      (st\<lparr>errStream := errStream st @ ''===> Materialize Failure: '' @ msg @ [CHR 0x0A]\<rparr>)
                      root cs))
       \<and> (\<forall>loaded. materialize pFunc = Inr loaded \<longrightarrow>
            exploreCallees E n st root (c # cs) =
              (case Explore E n
                      (setModule m
                         (updateFunction (fptr pFunc)
                            (\<lambda>f. loaded\<lparr>callingConv := callingConv pRoot\<rparr>) (moduleOf st m)) st)
                      (m, fptr pFunc) of
                 None \<Rightarrow> None
               | Some (Inl e) \<Rightarrow> Some (Inl e)
               | Some (Inr st') \<Rightarrow> exploreCallees E n st' root cs))
       \<and> (\<forall>D k Main BiF e. demandWalk D k Main BiF = Some (Inl e) \<longrightarrow>
            assertsEnabled D
            \<and> (\<exists>f \<in> set (functionList Main) \<union> set (functionList BiF). \<exists>msg.
                  lazyBody f = Some (Inl msg)
                  \<and> e = AssertFail (''===> Materialize Failure: '' @ msg @ [CHR 0x0A])
                                    ''Failed to materialize Global Variables''))
       \<and> (\<forall>D R k Main BiF st'.
            assertsEnabled D \<longrightarrow> \<not> assertsEnabled R \<longrightarrow> demandWalk R k Main BiF = Some (Inr st') \<longrightarrow>
              (errStream st' = [] \<and> demandWalk D k Main BiF = Some (Inr st'))
              \<or> (\<exists>msg rest.
                    errStream st' = ''===> Materialize Failure: '' @ msg @ [CHR 0x0A] @ rest
                    \<and> demandWalk D k Main BiF =
                        Some (Inl (AssertFail (''===> Materialize Failure: '' @ msg @ [CHR 0x0A])
                                     ''Failed to materialize Global Variables''))))"
proof (intro conjI)
  show "\<forall>msg. materialize pFunc = Inl msg \<longrightarrow>
            exploreCallees E n st root (c # cs) =
              (if assertsEnabled E
               then Some (Inl (AssertFail (''===> Materialize Failure: '' @ msg @ [CHR 0x0A])
                                 ''Failed to materialize Global Variables''))
               else exploreCallees E n
                      (st\<lparr>errStream := errStream st @ ''===> Materialize Failure: '' @ msg @ [CHR 0x0A]\<rparr>)
                      root cs)"
    using assms by simp
  show "\<forall>loaded. materialize pFunc = Inr loaded \<longrightarrow>
            exploreCallees E n st root (c # cs) =
              (case Explore E n
                      (setModule m
                         (updateFunction (fptr pFunc)
                            (\<lambda>f. loaded\<lparr>callingConv := callingConv pRoot\<rparr>) (moduleOf st m)) st)
                      (m, fptr pFunc) of
                 None \<Rightarrow> None
               | Some (Inl e) \<Rightarrow> Some (Inl e)
               | Some (Inr st') \<Rightarrow> exploreCallees E n st' root cs)"
    using assms by (auto split: option.splits sum.splits)
  show "\<forall>D k Main BiF e. demandWalk D k Main BiF = Some (Inl e) \<longrightarrow>
            assertsEnabled D
            \<and> (\<exists>f \<in> set (functionList Main) \<union> set (functionList BiF). \<exists>msg.
                  lazyBody f = Some (Inl msg)
                  \<and> e = AssertFail (''===> Materialize Failure: '' @ msg @ [CHR 0x0A])
                                    ''Failed to materialize Global Variables'')"
  proof (intro allI impI)
    fix D k Main BiF e
    assume "demandWalk D k Main BiF = Some (Inl e)"
    from roots_fatal_is_load_failure [OF this [unfolded demandWalk_def]]
    show "assertsEnabled D
            \<and> (\<exists>f \<in> set (functionList Main) \<union> set (functionList BiF). \<exists>msg.
                  lazyBody f = Some (Inl msg)
                  \<and> e = AssertFail (''===> Materialize Failure: '' @ msg @ [CHR 0x0A])
                                    ''Failed to materialize Global Variables'')"
      by (auto simp: loadErrors_def)
  qed
  show "\<forall>D R k Main BiF st'.
            assertsEnabled D \<longrightarrow> \<not> assertsEnabled R \<longrightarrow> demandWalk R k Main BiF = Some (Inr st') \<longrightarrow>
              (errStream st' = [] \<and> demandWalk D k Main BiF = Some (Inr st'))
              \<or> (\<exists>msg rest.
                    errStream st' = ''===> Materialize Failure: '' @ msg @ [CHR 0x0A] @ rest
                    \<and> demandWalk D k Main BiF =
                        Some (Inl (AssertFail (''===> Materialize Failure: '' @ msg @ [CHR 0x0A])
                                     ''Failed to materialize Global Variables'')))"
  proof (intro allI impI)
    fix D R :: buildEnv and k Main BiF st'
    assume D: "assertsEnabled D" and R: "\<not> assertsEnabled R"
      and run: "demandWalk R k Main BiF = Some (Inr st')"
    note rr = run [unfolded demandWalk_def]
    from roots_release_debug [OF R D rr]
    show "(errStream st' = [] \<and> demandWalk D k Main BiF = Some (Inr st'))
              \<or> (\<exists>msg rest.
                    errStream st' = ''===> Materialize Failure: '' @ msg @ [CHR 0x0A] @ rest
                    \<and> demandWalk D k Main BiF =
                        Some (Inl (AssertFail (''===> Materialize Failure: '' @ msg @ [CHR 0x0A])
                                     ''Failed to materialize Global Variables'')))"
      unfolding sameOrAborted_def demandWalk_def by simp
  qed
qed

theorem load_failure_fatal_only_with_assertions_witness:
  "getFunctionAt (moduleOf (linkStart linkLibBroken) InMain) 4 = Some (mkFunc 4 ''lib_sin'' floatFn 0 [])
   \<and> resolveCallee (linkStart linkLibBroken) InMain (mkFunc 4 ''lib_sin'' floatFn 0 [])
        = Some (InBiF, mkLazy 1 ''lib_sin'' floatFn (Inl ''corrupt bitcode''))
   \<and> isMaterializable (mkLazy 1 ''lib_sin'' floatFn (Inl ''corrupt bitcode''))
   \<and> materialize (mkLazy 1 ''lib_sin'' floatFn (Inl ''corrupt bitcode'')) = Inl ''corrupt bitcode''
   \<and> \<not> assertsEnabled releaseBuild
   \<and> exploreCallees releaseBuild 4 (linkStart linkLibBroken) (InMain, 1) [4, 2]
       = exploreCallees releaseBuild 4
           ((linkStart linkLibBroken)\<lparr>errStream := ''===> Materialize Failure: corrupt bitcode'' @ [CHR 0x0A]\<rparr>)
           (InMain, 1) [2]
   \<and> map_option (map_sum id (\<lambda>s. (errStream s, explored s))) (demandWalk releaseBuild 4 linkMain linkLibBroken)
       = Some (Inr (''===> Materialize Failure: corrupt bitcode'' @ [CHR 0x0A],
                    [(InMain, 1), (InMain, 2), (InMain, 3), (InMain, 4)]))
   \<and> assertsEnabled debugBuild
   \<and> exploreCallees debugBuild 4 (linkStart linkLibBroken) (InMain, 1) [4, 2]
       = Some (Inl (AssertFail (''===> Materialize Failure: corrupt bitcode'' @ [CHR 0x0A])
                      ''Failed to materialize Global Variables''))
   \<and> demandWalk debugBuild 4 linkMain linkLibBroken
       = Some (Inl (AssertFail (''===> Materialize Failure: corrupt bitcode'' @ [CHR 0x0A])
                      ''Failed to materialize Global Variables''))
   \<and> resolveCallee (linkStart linkLib) InMain (mkFunc 4 ''lib_sin'' floatFn 0 [])
        = Some (InBiF, mkLazy 1 ''lib_sin'' floatFn (Inr [[mkInst 30 (Call (FuncV 2) floatFn [ArgV 0 FloatTy] 0)]]))
   \<and> map_option (map_sum id (\<lambda>s. (explored s, map callingConv (functionList (bifModule s)),
                                     map isMaterializable (functionList (bifModule s)))))
        (exploreCallees debugBuild 4 (linkStart linkLib) (InMain, 1) [4])
        = Some (Inr ([(InBiF, 1), (InBiF, 2)], [7, 7, 0], [False, False, True]))"
proof -
  let ?st = "linkStart linkLibBroken"
  let ?lib = "mkLazy 1 ''lib_sin'' floatFn (Inl ''corrupt bitcode'')"
  let ?root = "mkFunc 1 ''kernel'' floatFn 7
        [[mkInst 10 (Call (FuncV 2) floatFn [ArgV 0 FloatTy] 0),
          mkInst 11 (Call (FuncV 3) floatFn [InstV 10 FloatTy] 0),
          mkInst 12 (Call (FuncV 4) floatFn [InstV 11 FloatTy] 0)]]"
  have h1: "getFunctionAt (moduleOf ?st (fst (InMain, 1::nat))) 4 = Some (mkFunc 4 ''lib_sin'' floatFn 0 [])"
    by code_simp
  have h2: "resolveCallee ?st (fst (InMain, 1::nat)) (mkFunc 4 ''lib_sin'' floatFn 0 []) = Some (InBiF, ?lib)"
    by code_simp
  have h3: "isMaterializable ?lib"
    by code_simp
  have h4: "getFunctionAt (moduleOf ?st (fst (InMain, 1::nat))) (snd (InMain, 1::nat)) = Some ?root"
    by code_simp
  have h5: "materialize ?lib = Inl ''corrupt bitcode''"
    by code_simp
  have r0: "\<not> assertsEnabled releaseBuild" by (simp add: releaseBuild_def)
  have d0: "assertsEnabled debugBuild" by (simp add: debugBuild_def)
  have e0: "errStream ?st = []" by (simp add: linkStart_def)
  have r2: "map_option (map_sum id (\<lambda>s. (errStream s, explored s))) (demandWalk releaseBuild 4 linkMain linkLibBroken)
       = Some (Inr (''===> Materialize Failure: corrupt bitcode'' @ [CHR 0x0A],
                    [(InMain, 1), (InMain, 2), (InMain, 3), (InMain, 4)]))"
    by code_simp
  have d2: "demandWalk debugBuild 4 linkMain linkLibBroken
       = Some (Inl (AssertFail (''===> Materialize Failure: corrupt bitcode'' @ [CHR 0x0A])
                      ''Failed to materialize Global Variables''))"
    by code_simp
  have s1: "resolveCallee (linkStart linkLib) InMain (mkFunc 4 ''lib_sin'' floatFn 0 [])
        = Some (InBiF, mkLazy 1 ''lib_sin'' floatFn (Inr [[mkInst 30 (Call (FuncV 2) floatFn [ArgV 0 FloatTy] 0)]]))"
    by code_simp
  have s2: "map_option (map_sum id (\<lambda>s. (explored s, map callingConv (functionList (bifModule s)),
                                     map isMaterializable (functionList (bifModule s)))))
        (exploreCallees debugBuild 4 (linkStart linkLib) (InMain, 1) [4])
        = Some (Inr ([(InBiF, 1), (InBiF, 2)], [7, 7, 0], [False, False, True]))"
    by code_simp
  have g1: "getFunctionAt (moduleOf ?st InMain) 4 = Some (mkFunc 4 ''lib_sin'' floatFn 0 [])"
    by code_simp
  have g2: "resolveCallee ?st InMain (mkFunc 4 ''lib_sin'' floatFn 0 []) = Some (InBiF, ?lib)"
    by code_simp
  have es: "errStream ?st @ ''===> Materialize Failure: '' @ ''corrupt bitcode'' @ [CHR 0x0A]
      = ''===> Materialize Failure: corrupt bitcode'' @ [CHR 0x0A]"
    by code_simp
  have ds: "''===> Materialize Failure: '' @ ''corrupt bitcode'' @ [CHR 0x0A]
      = ''===> Materialize Failure: corrupt bitcode'' @ [CHR 0x0A]"
    by code_simp
  note tr = load_failure_fatal_only_with_assertions [OF h1 h2 h3 h4, of releaseBuild 4 "[2]"]
  from tr h5 have "exploreCallees releaseBuild 4 ?st (InMain, 1) [4, 2]
       = (if assertsEnabled releaseBuild
          then Some (Inl (AssertFail (''===> Materialize Failure: '' @ ''corrupt bitcode'' @ [CHR 0x0A])
                                 ''Failed to materialize Global Variables''))
          else exploreCallees releaseBuild 4
                 (?st\<lparr>errStream := errStream ?st @ ''===> Materialize Failure: '' @ ''corrupt bitcode'' @ [CHR 0x0A]\<rparr>)
                 (InMain, 1) [2])"
    by blast
  then have r1: "exploreCallees releaseBuild 4 ?st (InMain, 1) [4, 2]
       = exploreCallees releaseBuild 4
           (?st\<lparr>errStream := ''===> Materialize Failure: corrupt bitcode'' @ [CHR 0x0A]\<rparr>)
           (InMain, 1) [2]"
    using r0 by (simp only: if_False es)
  note td = load_failure_fatal_only_with_assertions [OF h1 h2 h3 h4, of debugBuild 4 "[2]"]
  from td h5 have "exploreCallees debugBuild 4 ?st (InMain, 1) [4, 2]
       = (if assertsEnabled debugBuild
          then Some (Inl (AssertFail (''===> Materialize Failure: '' @ ''corrupt bitcode'' @ [CHR 0x0A])
                                 ''Failed to materialize Global Variables''))
          else exploreCallees debugBuild 4
                 (?st\<lparr>errStream := errStream ?st @ ''===> Materialize Failure: '' @ ''corrupt bitcode'' @ [CHR 0x0A]\<rparr>)
                 (InMain, 1) [2])"
    by blast
  then have d1: "exploreCallees debugBuild 4 ?st (InMain, 1) [4, 2]
       = Some (Inl (AssertFail (''===> Materialize Failure: corrupt bitcode'' @ [CHR 0x0A])
                      ''Failed to materialize Global Variables''))"
    using d0 by (simp only: if_True ds)
  show ?thesis
    by (intro conjI g1 g2 h3 h5 r0 r1 r2 d0 d1 d2 s1 s2)
qed

text \<open>
  Claim C3, as stated, fails: \<open>helper\<close> is a callee of \<open>kernel\<close> and is defined in the main
  module, yet the walk from \<open>kernel\<close> does not enter it. The log of the walk holds the
  root and the two library functions that were loaded, and the call inside \<open>helper\<close>
  keeps its calling convention 5, which a walk of \<open>helper\<close> would have set to 3.
\<close>

theorem defined_callee_not_entered_counterexample:
  "getFunctionAt linkMain 2
     = Some (mkFunc 2 ''helper'' floatFn 3 [[mkInst 20 (Call (FuncV 3) floatFn [ArgV 0 FloatTy] 5)]])
   \<and> \<not> isDeclaration (mkFunc 2 ''helper'' floatFn 3 [[mkInst 20 (Call (FuncV 3) floatFn [ArgV 0 FloatTy] 5)]])
   \<and> snd (GetCalledFunctions linkMain (mkFunc 1 ''kernel'' floatFn 7
        [[mkInst 10 (Call (FuncV 2) floatFn [ArgV 0 FloatTy] 0),
          mkInst 11 (Call (FuncV 3) floatFn [InstV 10 FloatTy] 0),
          mkInst 12 (Call (FuncV 4) floatFn [InstV 11 FloatTy] 0)]])) = [2, 3, 4]
   \<and> map_option (map_sum id (\<lambda>s. (explored s, getFunctionAt (mainModule s) 2)))
        (Explore debugBuild 4 (linkStart linkLib) (InMain, 1))
       = Some (Inr ([(InMain, 1), (InBiF, 1), (InBiF, 2)],
            Some (mkFunc 2 ''helper'' floatFn 3 [[mkInst 20 (Call (FuncV 3) floatFn [ArgV 0 FloatTy] 5)]])))"
  by code_simp

text \<open>
  Claim C3, amended. A callee that is more than a declaration is taken as it is, with no
  lookup in the library module. The walk enters it only when it is still materializable
  and its body loads; a callee whose body is already there is passed over, the loop going
  on with the next callee in the same state.
\<close>

theorem defined_callee_entered_only_if_materializable:
  assumes "getFunctionAt (moduleOf st (fst root)) c = Some pCallee"
    and "\<not> isDeclaration pCallee"
    and "getFunctionAt (moduleOf st (fst root)) (snd root) = Some pRoot"
  shows "resolveCallee st (fst root) pCallee = Some (fst root, pCallee)
       \<and> (\<not> isMaterializable pCallee \<longrightarrow>
            exploreCallees E n st root (c # cs) = exploreCallees E n st root cs)
       \<and> (\<forall>loaded. isMaterializable pCallee \<and> materialize pCallee = Inr loaded \<longrightarrow>
            exploreCallees E n st root (c # cs) =
              (case Explore E n
                      (setModule (fst root)
                         (updateFunction (fptr pCallee)
                            (\<lambda>f. loaded\<lparr>callingConv := callingConv pRoot\<rparr>)
                            (moduleOf st (fst root))) st)
                      (fst root, fptr pCallee) of
                 None \<Rightarrow> None
               | Some (Inl e) \<Rightarrow> Some (Inl e)
               | Some (Inr st') \<Rightarrow> exploreCallees E n st' root cs))"
  using assms by (auto simp: resolveCallee_def split: option.splits sum.splits)

theorem defined_callee_entered_only_if_materializable_witness:
  "getFunctionAt (moduleOf (linkStart linkLib) InMain) 2
     = Some (mkFunc 2 ''helper'' floatFn 3 [[mkInst 20 (Call (FuncV 3) floatFn [ArgV 0 FloatTy] 5)]])
   \<and> \<not> isDeclaration (mkFunc 2 ''helper'' floatFn 3 [[mkInst 20 (Call (FuncV 3) floatFn [ArgV 0 FloatTy] 5)]])
   \<and> \<not> isMaterializable (mkFunc 2 ''helper'' floatFn 3 [[mkInst 20 (Call (FuncV 3) floatFn [ArgV 0 FloatTy] 5)]])
   \<and> exploreCallees debugBuild 4 (linkStart linkLib) (InMain, 1) [2, 3] = exploreCallees debugBuild 4 (linkStart linkLib) (InMain, 1) [3]
   \<and> getFunctionAt (moduleOf (linkStart linkLibHalf) InBiF) 2
        = Some (mkLazy 2 ''lib_poly'' floatFn (Inr [[mkInst 40 (OtherInst [ArgV 0 FloatTy] FloatTy)]]))
   \<and> \<not> isDeclaration (mkLazy 2 ''lib_poly'' floatFn (Inr [[mkInst 40 (OtherInst [ArgV 0 FloatTy] FloatTy)]]))
   \<and> isMaterializable (mkLazy 2 ''lib_poly'' floatFn (Inr [[mkInst 40 (OtherInst [ArgV 0 FloatTy] FloatTy)]]))
   \<and> map_option (map_sum id explored) (exploreCallees debugBuild 4 (linkStart linkLibHalf) (InBiF, 1) [2])
        = Some (Inr [(InBiF, 2)])"
proof -
  let ?helper = "mkFunc 2 ''helper'' floatFn 3 [[mkInst 20 (Call (FuncV 3) floatFn [ArgV 0 FloatTy] 5)]]"
  let ?root = "mkFunc 1 ''kernel'' floatFn 7
        [[mkInst 10 (Call (FuncV 2) floatFn [ArgV 0 FloatTy] 0),
          mkInst 11 (Call (FuncV 3) floatFn [InstV 10 FloatTy] 0),
          mkInst 12 (Call (FuncV 4) floatFn [InstV 11 FloatTy] 0)]]"
  let ?poly = "mkLazy 2 ''lib_poly'' floatFn (Inr [[mkInst 40 (OtherInst [ArgV 0 FloatTy] FloatTy)]])"
  let ?sin = "mkFunc 1 ''lib_sin'' floatFn 9 [[mkInst 30 (Call (FuncV 2) floatFn [ArgV 0 FloatTy] 0)]]"
  have a1: "getFunctionAt (moduleOf (linkStart linkLib) (fst (InMain, 1::nat))) 2 = Some ?helper"
    by code_simp
  have a2: "\<not> isDeclaration ?helper" by code_simp
  have a3: "getFunctionAt (moduleOf (linkStart linkLib) (fst (InMain, 1::nat))) (snd (InMain, 1::nat)) = Some ?root"
    by code_simp
  have a4: "\<not> isMaterializable ?helper" by code_simp
  have b1: "getFunctionAt (moduleOf (linkStart linkLibHalf) (fst (InBiF, 1::nat))) 2 = Some ?poly"
    by code_simp
  have b2: "\<not> isDeclaration ?poly" by code_simp
  have b3: "getFunctionAt (moduleOf (linkStart linkLibHalf) (fst (InBiF, 1::nat))) (snd (InBiF, 1::nat)) = Some ?sin"
    by code_simp
  have b4: "isMaterializable ?poly" by code_simp
  have b5: "map_option (map_sum id explored) (exploreCallees debugBuild 4 (linkStart linkLibHalf) (InBiF, 1) [2])
        = Some (Inr [(InBiF, 2)])"
    by code_simp
  from defined_callee_entered_only_if_materializable [OF a1 a2 a3, of debugBuild 4 "[3]"] a4
  have "exploreCallees debugBuild 4 (linkStart linkLib) (InMain, 1) [2, 3] = exploreCallees debugBuild 4 (linkStart linkLib) (InMain, 1) [3]"
    by blast
  with a1 a2 a4 b1 b2 b4 b5 show ?thesis by simp
qed

section \<open>Properties of the call rewriter\<close>

lemma fold_max_ge: "(a::nat) \<le> fold max xs a \<and> (\<forall>x \<in> set xs. x \<le> fold max xs a)"
proof (induction xs arbitrary: a)
  case Nil
  show ?case by simp
next
  case (Cons y ys)
  from Cons [of "max y a"] show ?case by auto
qed

lemma newAddr_fresh: "I \<in> set (allInsts M) \<Longrightarrow> addr I < newAddr M"
  using fold_max_ge [of 0 "map addr (allInsts M)"] by (auto simp: newAddr_def less_Suc_eq_le)

lemma newAddr_notin: "newAddr M \<notin> set (addrs M)"
proof
  assume "newAddr M \<in> set (addrs M)"
  then obtain I where "I \<in> set (allInsts M)" "addr I = newAddr M" by (auto simp: addrs_def)
  with newAddr_fresh [of I M] show False by simp
qed

lemma Suc_newAddr_notin: "Suc (newAddr M) \<notin> set (addrs M)"
proof
  assume "Suc (newAddr M) \<in> set (addrs M)"
  then obtain I where "I \<in> set (allInsts M)" "addr I = Suc (newAddr M)" by (auto simp: addrs_def)
  with newAddr_fresh [of I M] show False by simp
qed

lemma operands_mapOperands [simp]: "operands (mapOperands g k) = map g (operands k)"
  by (cases k) simp_all

lemma mapOperands_comp: "mapOperands f (mapOperands g k) = mapOperands (f \<circ> g) k"
  by (cases k) simp_all

lemma mapOperands_cong: "(\<And>v. v \<in> set (operands k) \<Longrightarrow> f v = g v) \<Longrightarrow> mapOperands f k = mapOperands g k"
  by (cases k) simp_all

lemma getType_renameBy [simp]: "getType (renameBy \<rho> v) = getType v"
  by (cases v) (auto simp: renameBy_def split: option.splits)

lemma getType_renameV [simp]: "getType (renameV a r v) = getType v"
  by (cases v) (auto simp: renameV_def)

lemma kindType_mapOperands: "(\<And>v. getType (g v) = getType v) \<Longrightarrow> kindType (mapOperands g k) = kindType k"
  by (cases k) simp_all

lemma renameV_renameBy:
  assumes "\<rho> a = None" and "\<And>b. \<rho> b \<noteq> Some a"
  shows "renameV a r (renameBy \<rho> v) = renameBy (\<rho>(a \<mapsto> r)) v"
  using assms by (cases v) (auto simp: renameV_def renameBy_def split: option.splits)

lemma renameI_simps [simp]:
  "addr (renameI g I) = addr I" "dbgLoc (renameI g I) = dbgLoc I"
  "ik (renameI g I) = mapOperands g (ik I)"
  by (simp_all add: renameI_def)

lemma instType_renameI: "(\<And>v. getType (g v) = getType v) \<Longrightarrow> instType (renameI g I) = instType I"
  by (simp add: instType_def kindType_mapOperands)

lemma renameI_comp: "renameI f (renameI g I) = renameI (f \<circ> g) I"
  by (simp add: renameI_def mapOperands_comp)

lemma getCalledFunction_rename:
  assumes "\<And>p. g (FuncV p) = FuncV p" and "\<And>v. (\<exists>p. g v = FuncV p) \<Longrightarrow> g v = v"
  shows "getCalledFunction M (g cv) = getCalledFunction M cv"
proof (cases "\<exists>p. g cv = FuncV p")
  case True
  with assms(2) show ?thesis by metis
next
  case False
  moreover from False assms(1) have "\<not> (\<exists>p. cv = FuncV p)" by metis
  ultimately show ?thesis by (cases cv; cases "g cv") (simp_all add: getCalledFunction_def)
qed

lemma renameBy_FuncV [simp]: "renameBy \<rho> (FuncV p) = FuncV p"
  by (simp add: renameBy_def)

lemma renameBy_eq_FuncV: "renameBy \<rho> v = FuncV p \<Longrightarrow> v = FuncV p"
  by (cases v) (auto simp: renameBy_def split: option.splits)

lemma getCalledFunction_renameBy [simp]:
  "getCalledFunction M (renameBy \<rho> cv) = getCalledFunction M cv"
  by (rule getCalledFunction_rename) (auto dest: renameBy_eq_FuncV)

lemma declsExt_refl [simp]: "declsExt M M"
  by (simp add: declsExt_def)

lemma declsExt_trans: "declsExt A B \<Longrightarrow> declsExt B C \<Longrightarrow> declsExt A C"
  by (auto simp: declsExt_def)

lemma declsExt_allInsts: "declsExt M M1 \<Longrightarrow> allInsts M1 = allInsts M"
  by (auto simp: declsExt_def allInsts_def)

lemma declsExt_newAddr: "declsExt M M1 \<Longrightarrow> newAddr M1 = newAddr M"
  by (simp add: newAddr_def declsExt_allInsts)

lemma find_append_Some: "find P xs = Some x \<Longrightarrow> find P (xs @ ys) = Some x"
  by (induction xs) (auto split: if_splits)

lemma find_append_None: "find P xs = None \<Longrightarrow> find P (xs @ ys) = find P ys"
  by (induction xs) (auto split: if_splits)

lemma getDeclaration_shape:
  assumes "getDeclaration E M iid tys = Inr (M1, F)"
  shows "declsExt M M1 \<and> getFunction M1 (Intrinsic_getName iid tys) = Some F \<and> ftype F = intrinsicType E iid tys"
proof (cases "getFunction M (Intrinsic_getName iid tys)")
  case None
  with assms show ?thesis
    by (auto simp: getDeclaration_def Let_def declsExt_def getFunction_def find_append_None)
next
  case (Some f)
  with assms show ?thesis
    by (auto simp: getDeclaration_def split: if_splits)
qed

lemma lowerDirect_shape:
  assumes "lowerDirect E M I callee cv args = Some (Inr (M1, news))"
  shows "declsExt M M1 \<and> map addr news = take (length news) [newAddr M, Suc (newAddr M)]
         \<and> (\<forall>N \<in> set news. dbgLoc N = dbgLoc I)"
  using assms
  by (auto simp: lowerDirect_def Let_def CallInst_Create_def newInst_def
           split: if_splits option.splits sum.splits prod.splits
           dest!: getDeclaration_shape intro: declsExt_trans)

lemma getArgOperand_map: "getArgOperand (map g args) i = map_sum id g (getArgOperand args i)"
  by (simp add: getArgOperand_def)

lemma CallInst_Create_rename:
  "CallInst_Create F (map g args) (renameI g I) a = renameI g (CallInst_Create F args I a)"
  if "\<And>p. g (FuncV p) = FuncV p"
  using that by (simp add: CallInst_Create_def renameI_def)

lemma instType_CallInst_Create [simp]: "instType (CallInst_Create F args I a) = getReturnType (ftype F)"
  by (simp add: CallInst_Create_def instType_def)

lemma lowerDirect_rename:
  assumes ty: "\<And>v. getType (g v) = getType v"
    and fv: "\<And>p. g (FuncV p) = FuncV p"
    and fresh: "\<And>t. g (InstV (newAddr M) t) = InstV (newAddr M) t"
  shows "lowerDirect E M (renameI g I) callee (g cv) (map g args)
       = map_option (map_sum id (\<lambda>(M1, news). (M1, map (renameI g) news)))
           (lowerDirect E M I callee cv args)"
proof -
  have src: "(case map g args of [] \<Rightarrow> g cv | x # xs \<Rightarrow> x) = g (case args of [] \<Rightarrow> cv | x # xs \<Rightarrow> x)"
    by (cases args) simp_all
  show ?thesis
    unfolding lowerDirect_def Let_def src
    by (auto simp: ty fv fresh getArgOperand_def CallInst_Create_def newInst_def renameI_def resultOf_def instType_def
             split: option.splits sum.splits prod.splits)
qed

lemma sigsExt_refl [simp]: "sigsExt A A"
  by (simp add: sigsExt_def)

lemma sigsExt_trans: "sigsExt A B \<Longrightarrow> sigsExt B C \<Longrightarrow> sigsExt A C"
  by (auto simp: sigsExt_def)

lemma declsExt_sigsExt: "declsExt A B \<Longrightarrow> sigsExt A B"
  by (auto simp: declsExt_def sigsExt_def sigs_def)

lemma sigs_mapBlocks [simp]: "sigs (mapBlocks g M) = sigs M"
  by (simp add: sigs_def mapBlocks_def comp_def)

lemma shaped_sigsExt: "shaped M0 sg Mc \<Longrightarrow> sigsExt M0 Mc"
  by (auto simp: shaped_def sigsExt_def sigs_def comp_def)

lemma concat_map_concat: "concat (map f (concat xss)) = concat (map (\<lambda>xs. concat (map f xs)) xss)"
  by (induction xss) simp_all

lemma shaped_allInsts:
  assumes "shaped M0 sg Mc"
  shows "allInsts Mc = concat (map sg (allInsts M0))"
proof -
  from assms obtain ds where fl: "functionList Mc =
      map (\<lambda>f. f\<lparr>body := map (\<lambda>blk. concat (map sg blk)) (body f)\<rparr>) (functionList M0) @ ds"
    and ds: "\<forall>d \<in> set ds. body d = [] \<and> lazyBody d = None"
    by (auto simp: shaped_def)
  have z: "concat (map (\<lambda>f. concat (body f)) ds) = []"
    using ds by (induction ds) simp_all
  have "allInsts Mc = concat (map (\<lambda>f. concat (map (\<lambda>blk. concat (map sg blk)) (body f))) (functionList M0))"
    by (simp add: allInsts_def fl z comp_def)
  also have "\<dots> = concat (map sg (allInsts M0))"
    by (simp add: allInsts_def concat_map_concat comp_def)
  finally show ?thesis .
qed

lemma shaped_declsExt: "shaped M0 sg Mc \<Longrightarrow> declsExt Mc M1 \<Longrightarrow> shaped M0 sg M1"
  by (auto simp: shaped_def declsExt_def)

lemma find_concat_seg:
  assumes "\<And>J N. J \<in> set xs \<Longrightarrow> N \<in> set (tm (addr J)) \<Longrightarrow> addr N \<noteq> a"
  shows "find (\<lambda>I. addr I = a) (concat (map (seg \<rho> tm) xs))
       = map_option (renameI (renameBy \<rho>)) (find (\<lambda>I. addr I = a) xs)"
  using assms
proof (induction xs)
  case Nil
  show ?case by simp
next
  case (Cons J xs)
  have t: "find (\<lambda>I. addr I = a) (map (renameI (renameBy \<rho>)) (tm (addr J))) = None"
    using Cons.prems [of J] by (auto simp: find_None_iff)
  have ih: "find (\<lambda>I. addr I = a) (concat (map (seg \<rho> tm) xs))
       = map_option (renameI (renameBy \<rho>)) (find (\<lambda>I. addr I = a) xs)"
    by (rule Cons.IH) (use Cons.prems in auto)
  have e: "concat (map (seg \<rho> tm) (J # xs))
      = map (renameI (renameBy \<rho>)) (tm (addr J)) @ (renameI (renameBy \<rho>) J # concat (map (seg \<rho> tm) xs))"
    by (simp add: seg_def)
  show ?case
    unfolding e find_append_None [OF t] using ih by simp
qed

lemma find_distinct_addr:
  assumes "distinct (map addr xs)" and "J \<in> set xs"
  shows "find (\<lambda>I. addr I = addr J) xs = Some J"
  using assms by (induction xs) (auto simp: image_iff)

lemma insert_none:
  "(\<And>X. X \<in> set ys \<Longrightarrow> addr X \<noteq> a) \<Longrightarrow>
   concat (map (\<lambda>X. if addr X = a then n @ [X] else [X]) ys) = ys"
  by (induction ys) auto

lemma insert_rename_block:
  assumes dom: "\<rho> a = None" and ran: "\<And>b. \<rho> b \<noteq> Some a"
    and tma: "tm a = []"
    and tmf: "\<And>J N. J \<in> set blk \<Longrightarrow> N \<in> set (tm (addr J)) \<Longrightarrow> addr N \<noteq> a"
  shows "map (renameI (renameV a r))
           (concat (map (\<lambda>X. if addr X = a then map (renameI (renameBy \<rho>)) news @ [X] else [X])
              (concat (map (seg \<rho> tm) blk))))
       = concat (map (seg (\<rho>(a \<mapsto> r)) (tm(a := news))) blk)"
  using tmf
proof (induction blk)
  case Nil
  show ?case by simp
next
  case (Cons J blk)
  have comp: "renameI (renameV a r) (renameI (renameBy \<rho>) X) = renameI (renameBy (\<rho>(a \<mapsto> r))) X" for X
    using renameV_renameBy [of \<rho> a, OF dom ran] by (simp add: renameI_comp comp_def)
  have ih: "map (renameI (renameV a r))
           (concat (map (\<lambda>X. if addr X = a then map (renameI (renameBy \<rho>)) news @ [X] else [X])
              (concat (map (seg \<rho> tm) blk))))
       = concat (map (seg (\<rho>(a \<mapsto> r)) (tm(a := news))) blk)"
    by (rule Cons.IH) (use Cons.prems in auto)
  have t: "concat (map (\<lambda>X. if addr X = a then map (renameI (renameBy \<rho>)) news @ [X] else [X])
              (map (renameI (renameBy \<rho>)) (tm (addr J))))
         = map (renameI (renameBy \<rho>)) (tm (addr J))"
    by (rule insert_none) (use Cons.prems [of J] in fastforce)
  have hd: "map (renameI (renameV a r))
           (concat (map (\<lambda>X. if addr X = a then map (renameI (renameBy \<rho>)) news @ [X] else [X])
              (seg \<rho> tm J)))
       = seg (\<rho>(a \<mapsto> r)) (tm(a := news)) J"
  proof (cases "addr J = a")
    case True
    then show ?thesis using tma by (simp add: seg_def comp)
  next
    case False
    then show ?thesis using t by (simp add: seg_def comp)
  qed
  have "map (renameI (renameV a r))
           (concat (map (\<lambda>X. if addr X = a then map (renameI (renameBy \<rho>)) news @ [X] else [X])
              (concat (map (seg \<rho> tm) (J # blk)))))
      = map (renameI (renameV a r))
           (concat (map (\<lambda>X. if addr X = a then map (renameI (renameBy \<rho>)) news @ [X] else [X])
              (seg \<rho> tm J)))
        @ map (renameI (renameV a r))
           (concat (map (\<lambda>X. if addr X = a then map (renameI (renameBy \<rho>)) news @ [X] else [X])
              (concat (map (seg \<rho> tm) blk))))"
    by simp
  also have "\<dots> = concat (map (seg (\<rho>(a \<mapsto> r)) (tm(a := news))) (J # blk))"
    unfolding hd ih by simp
  finally show ?case .
qed

lemma mem_allInsts: "f \<in> set (functionList M) \<Longrightarrow> blk \<in> set (body f) \<Longrightarrow> J \<in> set blk \<Longrightarrow> J \<in> set (allInsts M)"
  by (auto simp: allInsts_def)

lemma replaceAllUsesWith_alt:
  "replaceAllUsesWith a r M = mapBlocks (map (renameI (renameV a r))) M"
proof -
  have "renameI (renameV a r) = (\<lambda>I. I\<lparr>ik := mapOperands (renameV a r) (ik I)\<rparr>)"
    by (rule ext) (simp add: renameI_def)
  then show ?thesis by (simp add: replaceAllUsesWith_def)
qed

lemma shaped_replace:
  assumes sh: "shaped M0 (seg \<rho> tm) M1"
    and dom: "\<rho> a = None" and ran: "\<And>b. \<rho> b \<noteq> Some a"
    and tma: "tm a = []"
    and tmf: "\<And>J N. J \<in> set (allInsts M0) \<Longrightarrow> N \<in> set (tm (addr J)) \<Longrightarrow> addr N \<noteq> a"
  shows "shaped M0 (seg (\<rho>(a \<mapsto> r)) (tm(a := news)))
           (replaceAllUsesWith a r (insertBefore a (map (renameI (renameBy \<rho>)) news) M1))"
proof -
  let ?ins = "\<lambda>blk. concat (map (\<lambda>X. if addr X = a then map (renameI (renameBy \<rho>)) news @ [X] else [X]) blk)"
  let ?T = "\<lambda>blk. map (renameI (renameV a r)) (?ins blk)"
  from sh obtain ds where fl: "functionList M1 =
      map (\<lambda>f. f\<lparr>body := map (\<lambda>blk. concat (map (seg \<rho> tm) blk)) (body f)\<rparr>) (functionList M0) @ ds"
    and ds: "\<forall>d \<in> set ds. body d = [] \<and> lazyBody d = None"
    and gl: "globalList M1 = globalList M0"
    by (auto simp: shaped_def)
  have blk: "?T (concat (map (seg \<rho> tm) blk)) = concat (map (seg (\<rho>(a \<mapsto> r)) (tm(a := news))) blk)"
    if "f \<in> set (functionList M0)" "blk \<in> set (body f)" for f blk
    by (rule insert_rename_block [of \<rho> a tm, OF dom ran tma]) (use that tmf mem_allInsts in blast)
  have f0: "map (\<lambda>f. f\<lparr>body := map ?T (body f)\<rparr>)
              (map (\<lambda>f. f\<lparr>body := map (\<lambda>blk. concat (map (seg \<rho> tm) blk)) (body f)\<rparr>) (functionList M0))
          = map (\<lambda>f. f\<lparr>body := map (\<lambda>blk. concat (map (seg (\<rho>(a \<mapsto> r)) (tm(a := news))) blk)) (body f)\<rparr>)
              (functionList M0)"
    using blk by (simp add: comp_def cong: map_cong)
  have d0: "map (\<lambda>f. f\<lparr>body := map ?T (body f)\<rparr>) ds = ds"
    using ds by (induction ds) simp_all
  have "functionList (replaceAllUsesWith a r (insertBefore a (map (renameI (renameBy \<rho>)) news) M1))
      = map (\<lambda>f. f\<lparr>body := map ?T (body f)\<rparr>) (functionList M1)"
    by (simp add: replaceAllUsesWith_alt insertBefore_def mapBlocks_def comp_def)
  also have "\<dots> = map (\<lambda>f. f\<lparr>body := map (\<lambda>blk. concat (map (seg (\<rho>(a \<mapsto> r)) (tm(a := news))) blk)) (body f)\<rparr>)
              (functionList M0) @ ds"
    unfolding fl map_append f0 d0 ..
  finally have fl': "functionList (replaceAllUsesWith a r (insertBefore a (map (renameI (renameBy \<rho>)) news) M1))
     = map (\<lambda>f. f\<lparr>body := map (\<lambda>blk. concat (map (seg (\<rho>(a \<mapsto> r)) (tm(a := news))) blk)) (body f)\<rparr>)
              (functionList M0) @ ds" .
  have gl': "globalList (replaceAllUsesWith a r (insertBefore a (map (renameI (renameBy \<rho>)) news) M1)) = globalList M0"
    using gl by (simp add: replaceAllUsesWith_alt insertBefore_def mapBlocks_def)
  show ?thesis
    unfolding shaped_def using fl' gl' ds by blast
qed

lemma visited_mono:
  assumes "visited E M0 Mc LD \<rho> tm J"
    and "sigsExt Mc Mc'" and "set LD \<subseteq> set LD'" and "addr J \<notin> set LD \<Longrightarrow> addr J \<notin> set LD'"
    and "\<rho>' (addr J) = \<rho> (addr J)" and "tm' (addr J) = tm (addr J)"
  shows "visited E M0 Mc' LD' \<rho>' tm' J"
proof -
  from assms(1) obtain Ma where a: "sigsExt M0 Ma" "set (addrs M0) \<subseteq> set (addrs Ma)"
    and c: "(case lowerCall E Ma J of
           None \<Rightarrow> tm (addr J) = [] \<and> addr J \<notin> set LD \<and> \<rho> (addr J) = None
         | Some (Inl e) \<Rightarrow> False
         | Some (Inr (M1, news)) \<Rightarrow>
             tm (addr J) = news \<and> addr J \<in> set LD \<and> sigsExt M1 Mc \<and>
             (if news = [] then \<rho> (addr J) = None
              else \<rho> (addr J) = Some (addr (last news)) \<and> instType (last news) = instType J))"
    unfolding visited_def by blast
  have "(case lowerCall E Ma J of
           None \<Rightarrow> tm' (addr J) = [] \<and> addr J \<notin> set LD' \<and> \<rho>' (addr J) = None
         | Some (Inl e) \<Rightarrow> False
         | Some (Inr (M1, news)) \<Rightarrow>
             tm' (addr J) = news \<and> addr J \<in> set LD' \<and> sigsExt M1 Mc' \<and>
             (if news = [] then \<rho>' (addr J) = None
              else \<rho>' (addr J) = Some (addr (last news)) \<and> instType (last news) = instType J))"
    using c assms(2-6)
    by (auto split: option.splits sum.splits prod.splits if_splits intro: sigsExt_trans)
  with a show ?thesis unfolding visited_def by blast
qed

lemma lowerCall_rename:
  assumes "\<rho> (newAddr M) = None"
  shows "lowerCall E M (renameI (renameBy \<rho>) I)
       = map_option (map_sum id (\<lambda>(M1, news). (M1, map (renameI (renameBy \<rho>)) news)))
           (lowerCall E M I)"
proof (cases "ik I")
  case (Call cv fty args cc)
  have fresh: "renameBy \<rho> (InstV (newAddr M) t) = InstV (newAddr M) t" for t
    using assms by (simp add: renameBy_def)
  show ?thesis
  proof (cases "getCalledFunction M cv")
    case None
    then show ?thesis using Call by (simp add: lowerCall_def)
  next
    case (Some callee)
    then show ?thesis using Call
      by (simp add: lowerCall_def lowerDirect_rename [OF getType_renameBy renameBy_FuncV fresh])
  qed
qed (simp_all add: lowerCall_def)

lemma lowerCall_shape:
  assumes "lowerCall E M I = Some (Inr (M1, news))"
  shows "declsExt M M1 \<and> map addr news = take (length news) [newAddr M, Suc (newAddr M)]
         \<and> (\<forall>N \<in> set news. dbgLoc N = dbgLoc I)"
  using assms lowerDirect_shape
  by (auto simp: lowerCall_def split: instKind.splits option.splits)

lemma shaped_addrs_sub:
  assumes "shaped M0 (seg \<rho> tm) Mc"
  shows "set (addrs M0) \<subseteq> set (addrs Mc)"
proof
  fix a assume "a \<in> set (addrs M0)"
  then obtain J where J: "J \<in> set (allInsts M0)" "addr J = a" by (auto simp: addrs_def)
  have "renameI (renameBy \<rho>) J \<in> set (seg \<rho> tm J)" by (simp add: seg_def)
  with J have "renameI (renameBy \<rho>) J \<in> set (allInsts Mc)"
    unfolding shaped_allInsts [OF assms] by auto
  then have "addr (renameI (renameBy \<rho>) J) \<in> set (addrs Mc)"
    unfolding addrs_def set_map by (rule imageI)
  with J show "a \<in> set (addrs Mc)" by simp
qed

lemma distinct_addr_eq:
  "distinct (map addr xs) \<Longrightarrow> J \<in> set xs \<Longrightarrow> J' \<in> set xs \<Longrightarrow> addr J = addr J' \<Longrightarrow> J = J'"
  by (meson distinct_map inj_on_def)

lemma take2_mem: "map addr news = take (length news) [x, y] \<Longrightarrow> N \<in> set news \<Longrightarrow> addr N = x \<or> addr N = y"
proof -
  assume a: "map addr news = take (length news) [x, y]" and b: "N \<in> set news"
  from b have "addr N \<in> set (map addr news)" by simp
  then have "addr N \<in> set (take (length news) [x, y])" using a by simp
  then have "addr N \<in> set [x, y]" by (rule in_set_takeD)
  then show ?thesis by simp
qed

lemma sigs_replace [simp]:
  "sigs (replaceAllUsesWith a r (insertBefore a news M)) = sigs M"
  by (simp add: replaceAllUsesWith_def insertBefore_def)

lemma InvI:
  assumes "shaped M0 (seg \<rho> tm) M" and "V \<subseteq> set (addrs M0)" and "set LD \<subseteq> V"
    and "dom \<rho> \<subseteq> set LD"
    and "\<forall>a r. \<rho> a = Some r \<longrightarrow> r \<notin> set (addrs M0)"
    and "\<forall>a N. N \<in> set (tm a) \<longrightarrow> addr N \<notin> set (addrs M0)"
    and "\<forall>a. a \<notin> V \<longrightarrow> tm a = []"
    and "\<forall>J0 \<in> set (allInsts M0). addr J0 \<in> V \<longrightarrow> visited E M0 M LD \<rho> tm J0"
  shows "Inv E M0 V \<lparr>cvtModule = M, ListDelete = LD\<rparr> \<rho> tm"
  unfolding Inv_def cvtState.simps by (intro conjI; fact)

lemma convert_step:
  assumes dist: "distinct (addrs M0)" and J0: "J0 \<in> set (allInsts M0)" and nv: "addr J0 \<notin> V"
    and inv: "Inv E M0 V st \<rho> tm" and cv: "convertCall E st (addr J0) = Inr st'"
  shows "\<exists>\<rho>' tm'. Inv E M0 (insert (addr J0) V) st' \<rho>' tm'"
proof -
  let ?a = "addr J0"
  let ?Mc = "cvtModule st"
  let ?LD = "ListDelete st"
  let ?g = "renameBy \<rho>"
  from inv have sh: "shaped M0 (seg \<rho> tm) ?Mc" and VS: "V \<subseteq> set (addrs M0)"
    and LDV: "set ?LD \<subseteq> V" and dom\<rho>: "dom \<rho> \<subseteq> set ?LD"
    and ran\<rho>: "\<And>b r. \<rho> b = Some r \<Longrightarrow> r \<notin> set (addrs M0)"
    and tmfresh: "\<And>b N. N \<in> set (tm b) \<Longrightarrow> addr N \<notin> set (addrs M0)"
    and tmV: "\<And>b. b \<notin> V \<Longrightarrow> tm b = []"
    and vis: "\<And>J. J \<in> set (allInsts M0) \<Longrightarrow> addr J \<in> V \<Longrightarrow> visited E M0 ?Mc ?LD \<rho> tm J"
    unfolding Inv_def by blast+
  have dist': "distinct (map addr (allInsts M0))" using dist by (simp add: addrs_def)
  have a0: "?a \<in> set (addrs M0)" using J0 by (simp add: addrs_def)
  have sub: "set (addrs M0) \<subseteq> set (addrs ?Mc)" by (rule shaped_addrs_sub [OF sh])
  have aLD: "?a \<notin> set ?LD" using LDV nv by blast
  have \<rho>a: "\<rho> ?a = None" using dom\<rho> aLD by blast
  have \<rho>fresh: "\<rho> x = None" if "x \<notin> set (addrs ?Mc)" for x
    using dom\<rho> LDV VS sub that by blast
  have \<rho>new: "\<rho> (newAddr ?Mc) = None" by (rule \<rho>fresh [OF newAddr_notin])
  have rana: "\<rho> b \<noteq> Some ?a" for b using ran\<rho> [of b ?a] a0 by blast
  have tma: "tm ?a = []" by (rule tmV [OF nv])
  have tmne: "addr N \<noteq> ?a" if "J \<in> set (allInsts M0)" "N \<in> set (tm (addr J))" for J N
    using tmfresh [OF that(2)] a0 by metis
  have fi: "findInst ?Mc ?a = Some (renameI ?g J0)"
    unfolding findInst_def shaped_allInsts [OF sh]
    by (simp add: find_concat_seg [of "allInsts M0" tm ?a \<rho>, OF tmne] find_distinct_addr [OF dist' J0])
  note lc = lowerCall_rename [of \<rho> ?Mc E J0, OF \<rho>new]
  have sg0: "sigsExt M0 ?Mc" by (rule shaped_sigsExt [OF sh])
  have uniq: "J = J0" if "J \<in> set (allInsts M0)" "addr J = ?a" for J
    by (rule distinct_addr_eq [OF dist' that(1) J0 that(2)])
  show ?thesis
  proof (cases "lowerCall E ?Mc J0")
    case None
    have st: "st' = st" using cv fi lc None by (simp add: convertCall_def)
    have v0: "visited E M0 ?Mc ?LD \<rho> tm J0"
      unfolding visited_def using sg0 sub None tma aLD \<rho>a by (intro exI [of _ ?Mc]) simp
    have i7: "\<forall>J \<in> set (allInsts M0). addr J \<in> insert ?a V \<longrightarrow> visited E M0 ?Mc ?LD \<rho> tm J"
      using vis v0 uniq by blast
    have i6: "\<forall>b. b \<notin> insert ?a V \<longrightarrow> tm b = []" using tmV by auto
    have i2: "set ?LD \<subseteq> insert ?a V" using LDV by auto
    have i1: "insert ?a V \<subseteq> set (addrs M0)" using VS a0 by blast
    have i4: "\<forall>b r. \<rho> b = Some r \<longrightarrow> r \<notin> set (addrs M0)" using ran\<rho> by blast
    have i5: "\<forall>b N. N \<in> set (tm b) \<longrightarrow> addr N \<notin> set (addrs M0)" using tmfresh by blast
    have "Inv E M0 (insert ?a V) \<lparr>cvtModule = ?Mc, ListDelete = ?LD\<rparr> \<rho> tm"
      by (rule InvI [OF sh i1 i2 dom\<rho> i4 i5 i6 i7])
    moreover have "\<lparr>cvtModule = ?Mc, ListDelete = ?LD\<rparr> = st" by simp
    ultimately have "Inv E M0 (insert ?a V) st \<rho> tm" by simp
    then show ?thesis unfolding st by blast
  next
    case (Some res)
    show ?thesis
    proof (cases res)
      case (Inl e)
      with cv fi lc Some show ?thesis by (simp add: convertCall_def)
    next
      case (Inr pr)
      obtain M1 news where pr: "pr = (M1, news)" by (cases pr)
      note low = Some [unfolded Inr pr]
      from lowerCall_shape [OF low] have ext: "declsExt ?Mc M1"
        and nad: "map addr news = take (length news) [newAddr ?Mc, Suc (newAddr ?Mc)]"
        by blast+
      have rq: "replaceAndQueue st M1 (renameI ?g J0) (map (renameI ?g) news) = Inr st'"
        using cv fi lc low by (simp add: convertCall_def)
      have sh1: "shaped M0 (seg \<rho> tm) M1" by (rule shaped_declsExt [OF sh ext])
      have sg1: "sigsExt ?Mc M1" by (rule declsExt_sigsExt [OF ext])
      have newfresh: "addr N \<notin> set (addrs M0)" if "N \<in> set news" for N
        using take2_mem [OF nad that] newAddr_notin [of ?Mc] Suc_newAddr_notin [of ?Mc] sub by auto
      show ?thesis
      proof (cases "news = []")
        case True
        have st: "st' = \<lparr>cvtModule = M1, ListDelete = ?LD @ [?a]\<rparr>"
          using rq True by (simp add: replaceAndQueue_def)
        have v0: "visited E M0 M1 (?LD @ [?a]) \<rho> tm J0"
          unfolding visited_def using sg0 sub low tma True \<rho>a by (intro exI [of _ ?Mc]) simp
        have vo: "visited E M0 M1 (?LD @ [?a]) \<rho> tm J" if "J \<in> set (allInsts M0)" "addr J \<in> V" for J
          by (rule visited_mono [OF vis [OF that] sg1]) (use that nv in auto)
        have i7: "\<forall>J \<in> set (allInsts M0). addr J \<in> insert ?a V \<longrightarrow> visited E M0 M1 (?LD @ [?a]) \<rho> tm J"
          using vo v0 uniq by blast
        have i6: "\<forall>b. b \<notin> insert ?a V \<longrightarrow> tm b = []" using tmV by auto
        have i3: "dom \<rho> \<subseteq> set (?LD @ [?a])" using dom\<rho> by auto
        have i2: "set (?LD @ [?a]) \<subseteq> insert ?a V" using LDV by auto
        have i1: "insert ?a V \<subseteq> set (addrs M0)" using VS a0 by blast
        have i4: "\<forall>b r. \<rho> b = Some r \<longrightarrow> r \<notin> set (addrs M0)" using ran\<rho> by blast
        have i5: "\<forall>b N. N \<in> set (tm b) \<longrightarrow> addr N \<notin> set (addrs M0)" using tmfresh by blast
        have "Inv E M0 (insert ?a V) st' \<rho> tm"
          unfolding st by (rule InvI [OF sh1 i1 i2 i3 i4 i5 i6 i7])
        then show ?thesis by blast
      next
        case False
        let ?r = "addr (last news)"
        let ?\<rho>' = "\<rho>(?a \<mapsto> ?r)"
        let ?tm' = "tm(?a := news)"
        let ?M' = "replaceAllUsesWith ?a ?r (insertBefore ?a (map (renameI ?g) news) M1)"
        have lastmap: "last (map (renameI ?g) news) = renameI ?g (last news)"
          using False by (simp add: last_map)
        have ty: "instType (last news) = instType J0"
          using rq False lastmap by (simp add: replaceAndQueue_def instType_renameI split: if_splits)
        have st: "st' = \<lparr>cvtModule = ?M', ListDelete = ?LD @ [?a]\<rparr>"
          using rq False lastmap by (simp add: replaceAndQueue_def split: if_splits)
        have sh': "shaped M0 (seg ?\<rho>' ?tm') ?M'"
          by (rule shaped_replace [of M0 \<rho> tm M1 ?a, OF sh1 \<rho>a rana tma tmne])
        have sg': "sigsExt M1 ?M'" by (simp add: sigsExt_def)
        have sgc: "sigsExt ?Mc ?M'" by (rule sigsExt_trans [OF sg1 sg'])
        have rfresh: "?r \<notin> set (addrs M0)" using newfresh [of "last news"] False by simp
        have v0: "visited E M0 ?M' (?LD @ [?a]) ?\<rho>' ?tm' J0"
          unfolding visited_def using sg0 sub low False ty sg' by (intro exI [of _ ?Mc]) simp
        have vo: "visited E M0 ?M' (?LD @ [?a]) ?\<rho>' ?tm' J" if "J \<in> set (allInsts M0)" "addr J \<in> V" for J
          by (rule visited_mono [OF vis [OF that] sgc]) (use that nv in auto)
        have i3: "dom ?\<rho>' \<subseteq> set (?LD @ [?a])" using dom\<rho> by auto
        have i4: "\<forall>b r. ?\<rho>' b = Some r \<longrightarrow> r \<notin> set (addrs M0)" using ran\<rho> rfresh by auto
        have i5: "\<forall>b N. N \<in> set (?tm' b) \<longrightarrow> addr N \<notin> set (addrs M0)" using tmfresh newfresh by auto
        have i6: "\<forall>b. b \<notin> insert ?a V \<longrightarrow> ?tm' b = []" using tmV by auto
        have i7: "\<forall>J \<in> set (allInsts M0). addr J \<in> insert ?a V \<longrightarrow> visited E M0 ?M' (?LD @ [?a]) ?\<rho>' ?tm' J"
          using vo v0 uniq by blast
        have i2: "set (?LD @ [?a]) \<subseteq> insert ?a V" using LDV by auto
        have i1: "insert ?a V \<subseteq> set (addrs M0)" using VS a0 by blast
        have "Inv E M0 (insert ?a V) st' ?\<rho>' ?tm'"
          unfolding st by (rule InvI [OF sh' i1 i2 i3 i4 i5 i6 i7])
        then show ?thesis by blast
      qed
    qed
  qed
qed

lemma runOnInsts_append:
  "runOnInsts E st (xs @ ys)
     = (case runOnInsts E st xs of Inl e \<Rightarrow> Inl e | Inr st' \<Rightarrow> runOnInsts E st' ys)"
  by (induction xs arbitrary: st) (auto split: sum.splits)

lemma runOnBlocks_flat: "runOnBlocks E st bs = runOnInsts E st (concat bs)"
  by (induction bs arbitrary: st) (auto simp: runOnInsts_append split: sum.splits)

lemma runOnFunctions_flat:
  "runOnFunctions E st fs = runOnInsts E st (concat (map (\<lambda>f. concat (body f)) fs))"
  by (induction fs arbitrary: st) (auto simp: runOnInsts_append runOnBlocks_flat split: sum.splits)

lemma runOnInsts_inv:
  assumes dist: "distinct (addrs M0)"
  shows "set xs \<subseteq> set (allInsts M0) \<Longrightarrow> distinct (map addr xs) \<Longrightarrow> addr ` set xs \<inter> V = {}
     \<Longrightarrow> \<exists>\<rho> tm. Inv E M0 V st \<rho> tm \<Longrightarrow> runOnInsts E st xs = Inr st'
     \<Longrightarrow> \<exists>\<rho> tm. Inv E M0 (V \<union> addr ` set xs) st' \<rho> tm"
proof (induction xs arbitrary: V st)
  case Nil
  then show ?case by simp
next
  case (Cons J xs)
  from Cons.prems(5) obtain st1 where c1: "convertCall E st (addr J) = Inr st1"
    and r1: "runOnInsts E st1 xs = Inr st'"
    by (auto split: sum.splits)
  from Cons.prems(4) obtain \<rho> tm where inv: "Inv E M0 V st \<rho> tm" by blast
  have J0: "J \<in> set (allInsts M0)" using Cons.prems(1) by simp
  have nv: "addr J \<notin> V" using Cons.prems(3) by auto
  from convert_step [OF dist J0 nv inv c1]
  have i1: "\<exists>\<rho>' tm'. Inv E M0 (insert (addr J) V) st1 \<rho>' tm'" .
  have d: "addr ` set xs \<inter> insert (addr J) V = {}"
    using Cons.prems(2,3) by auto
  have "\<exists>\<rho> tm. Inv E M0 (insert (addr J) V \<union> addr ` set xs) st' \<rho> tm"
    by (rule Cons.IH [OF _ _ d i1 r1]) (use Cons.prems(1,2) in auto)
  moreover have "insert (addr J) V \<union> addr ` set xs = V \<union> addr ` set (J # xs)" by auto
  ultimately show ?case by simp
qed

lemma renameBy_empty [simp]: "renameBy Map.empty v = v"
  by (cases v) (simp_all add: renameBy_def)

lemma mapOperands_ident [simp]: "mapOperands (\<lambda>v. v) k = k"
  by (cases k) simp_all

lemma renameI_empty [simp]: "renameI (renameBy Map.empty) J = J"
proof -
  have "renameBy Map.empty = (\<lambda>v. v)" by (rule ext) simp
  then show ?thesis by (simp add: renameI_def)
qed

lemma concat_singletons [simp]: "concat (map (\<lambda>J. [J]) blk) = blk"
  by (induction blk) simp_all

lemma Inv_init: "Inv E M0 {} \<lparr>cvtModule = M0, ListDelete = []\<rparr> Map.empty (\<lambda>a. [])"
proof -
  have sg: "seg Map.empty (\<lambda>a. []) = (\<lambda>J. [J])"
    by (rule ext) (simp add: seg_def)
  have "map (\<lambda>f. f\<lparr>body := map (\<lambda>blk. concat (map (\<lambda>J. [J]) blk)) (body f)\<rparr>) (functionList M0) = functionList M0"
    by (induction "functionList M0") simp_all
  then have "shaped M0 (seg Map.empty (\<lambda>a. [])) M0"
    unfolding sg shaped_def by auto
  then show ?thesis by (intro InvI) simp_all
qed

lemma filter_seg:
  assumes fresh: "\<And>N. N \<in> set (tm (addr J)) \<Longrightarrow> addr N \<notin> D"
    and nd: "addr J \<notin> D \<Longrightarrow> tm (addr J) = []"
  shows "filter (\<lambda>X. addr X \<notin> D) (seg \<rho> tm J) = out \<rho> tm D J"
proof -
  have "filter (\<lambda>X. addr X \<notin> D) (map (renameI (renameBy \<rho>)) (tm (addr J)))
      = map (renameI (renameBy \<rho>)) (tm (addr J))"
    using fresh by (induction "tm (addr J)") (auto simp: filter_id_conv)
  then show ?thesis using nd by (simp add: seg_def out_def)
qed

lemma erase_shaped:
  assumes sh: "shaped M0 (seg \<rho> tm) Mc"
    and fresh: "\<And>a N. N \<in> set (tm a) \<Longrightarrow> addr N \<notin> set (addrs M0)"
    and LD: "set LD \<subseteq> set (addrs M0)"
    and nd: "\<And>J. J \<in> set (allInsts M0) \<Longrightarrow> addr J \<notin> set LD \<Longrightarrow> tm (addr J) = []"
  shows "shaped M0 (out \<rho> tm (set LD)) (eraseFromParent LD Mc)"
proof -
  from sh obtain ds where fl: "functionList Mc =
      map (\<lambda>f. f\<lparr>body := map (\<lambda>blk. concat (map (seg \<rho> tm) blk)) (body f)\<rparr>) (functionList M0) @ ds"
    and ds: "\<forall>d \<in> set ds. body d = [] \<and> lazyBody d = None"
    and gl: "globalList Mc = globalList M0"
    by (auto simp: shaped_def)
  let ?F = "filter (\<lambda>X. addr X \<notin> set LD)"
  have sg: "?F (seg \<rho> tm J) = out \<rho> tm (set LD) J" if "J \<in> set (allInsts M0)" for J
    by (rule filter_seg) (use fresh LD nd that in blast)+
  have blk: "?F (concat (map (seg \<rho> tm) blk)) = concat (map (out \<rho> tm (set LD)) blk)"
    if "f \<in> set (functionList M0)" "blk \<in> set (body f)" for f blk
  proof -
    have "\<And>J. J \<in> set blk \<Longrightarrow> J \<in> set (allInsts M0)"
      using that mem_allInsts by blast
    then show ?thesis
      by (simp add: filter_concat comp_def sg cong: map_cong)
  qed
  have bf: "map (?F \<circ> (\<lambda>blk. concat (map (seg \<rho> tm) blk))) (body f)
          = map (\<lambda>blk. concat (map (out \<rho> tm (set LD)) blk)) (body f)"
    if "f \<in> set (functionList M0)" for f
    by (rule map_cong [OF refl]) (simp add: blk [OF that])
  have f0: "map (\<lambda>f. f\<lparr>body := map ?F (body f)\<rparr>)
              (map (\<lambda>f. f\<lparr>body := map (\<lambda>blk. concat (map (seg \<rho> tm) blk)) (body f)\<rparr>) (functionList M0))
          = map (\<lambda>f. f\<lparr>body := map (\<lambda>blk. concat (map (out \<rho> tm (set LD)) blk)) (body f)\<rparr>)
              (functionList M0)"
    unfolding map_map by (rule map_cong [OF refl]) (simp add: bf)
  have d0: "map (\<lambda>f. f\<lparr>body := map ?F (body f)\<rparr>) ds = ds"
    using ds by (induction ds) simp_all
  have "functionList (eraseFromParent LD Mc) = map (\<lambda>f. f\<lparr>body := map ?F (body f)\<rparr>) (functionList Mc)"
    by (simp add: eraseFromParent_def mapBlocks_def)
  also have "\<dots> = map (\<lambda>f. f\<lparr>body := map (\<lambda>blk. concat (map (out \<rho> tm (set LD)) blk)) (body f)\<rparr>)
              (functionList M0) @ ds"
    unfolding fl map_append f0 d0 ..
  finally have fl': "functionList (eraseFromParent LD Mc)
     = map (\<lambda>f. f\<lparr>body := map (\<lambda>blk. concat (map (out \<rho> tm (set LD)) blk)) (body f)\<rparr>)
              (functionList M0) @ ds" .
  have gl': "globalList (eraseFromParent LD Mc) = globalList M0"
    using gl by (simp add: eraseFromParent_def mapBlocks_def)
  show ?thesis unfolding shaped_def using fl' gl' ds by blast
qed

lemma runOnModule_structure:
  assumes dist: "distinct (addrs M0)" and run: "runOnModule E M0 = Inr M'"
  shows "\<exists>\<rho> tm LD Mx. M' = internalize Mx \<and> shaped M0 (out \<rho> tm (set LD)) Mx
      \<and> set LD \<subseteq> set (addrs M0) \<and> dom \<rho> \<subseteq> set LD
      \<and> (\<forall>a r. \<rho> a = Some r \<longrightarrow> r \<notin> set (addrs M0))
      \<and> (\<forall>a N. N \<in> set (tm a) \<longrightarrow> addr N \<notin> set (addrs M0))
      \<and> (\<forall>J0 \<in> set (allInsts M0). visited E M0 Mx LD \<rho> tm J0)"
proof -
  from run obtain st where loop: "runOnFunctions E \<lparr>cvtModule = M0, ListDelete = []\<rparr> (functionList M0) = Inr st"
    and M': "M' = internalize (eraseFromParent (ListDelete st) (cvtModule st))"
    by (auto simp: runOnModule_def split: sum.splits)
  have flat: "runOnInsts E \<lparr>cvtModule = M0, ListDelete = []\<rparr> (allInsts M0) = Inr st"
    using loop by (simp add: runOnFunctions_flat allInsts_def)
  have d: "distinct (map addr (allInsts M0))" using dist by (simp add: addrs_def)
  have i0: "\<exists>\<rho> tm. Inv E M0 {} \<lparr>cvtModule = M0, ListDelete = []\<rparr> \<rho> tm"
    using Inv_init by blast
  from runOnInsts_inv [OF dist subset_refl d _ i0 flat]
  obtain \<rho> tm where inv: "Inv E M0 ({} \<union> addr ` set (allInsts M0)) st \<rho> tm" by auto
  let ?Mc = "cvtModule st"
  let ?LD = "ListDelete st"
  let ?V = "{} \<union> addr ` set (allInsts M0)"
  from inv have sh: "shaped M0 (seg \<rho> tm) ?Mc"
    and LDV: "set ?LD \<subseteq> ?V" and VS: "?V \<subseteq> set (addrs M0)" and dom\<rho>: "dom \<rho> \<subseteq> set ?LD"
    and ran\<rho>: "\<forall>b r. \<rho> b = Some r \<longrightarrow> r \<notin> set (addrs M0)"
    and tmfresh: "\<forall>b N. N \<in> set (tm b) \<longrightarrow> addr N \<notin> set (addrs M0)"
    and vis: "\<And>J. J \<in> set (allInsts M0) \<Longrightarrow> addr J \<in> ?V \<Longrightarrow> visited E M0 ?Mc ?LD \<rho> tm J"
    unfolding Inv_def by blast+
  have LD: "set ?LD \<subseteq> set (addrs M0)" using LDV VS by blast
  have vis': "visited E M0 ?Mc ?LD \<rho> tm J" if "J \<in> set (allInsts M0)" for J
    by (rule vis [OF that]) (use that in simp)
  have nd: "tm (addr J) = []" if "J \<in> set (allInsts M0)" "addr J \<notin> set ?LD" for J
  proof -
    from vis' [OF that(1)] obtain Ma where c: "(case lowerCall E Ma J of
           None \<Rightarrow> tm (addr J) = [] \<and> addr J \<notin> set ?LD \<and> \<rho> (addr J) = None
         | Some (Inl e) \<Rightarrow> False
         | Some (Inr (M1, news)) \<Rightarrow>
             tm (addr J) = news \<and> addr J \<in> set ?LD \<and> sigsExt M1 ?Mc \<and>
             (if news = [] then \<rho> (addr J) = None
              else \<rho> (addr J) = Some (addr (last news)) \<and> instType (last news) = instType J))"
      unfolding visited_def by blast
    show ?thesis
    proof (cases "lowerCall E Ma J")
      case None
      with c show ?thesis by simp
    next
      case (Some res)
      show ?thesis
      proof (cases res)
        case (Inl e)
        with c Some show ?thesis by simp
      next
        case (Inr pr)
        with c Some that(2) show ?thesis by (cases pr) simp
      qed
    qed
  qed
  let ?Mx = "eraseFromParent ?LD ?Mc"
  have shx: "shaped M0 (out \<rho> tm (set ?LD)) ?Mx"
    by (rule erase_shaped [OF sh _ LD nd]) (use tmfresh in blast)
  have sx: "sigsExt ?Mc ?Mx" by (simp add: sigsExt_def eraseFromParent_def)
  have visx: "visited E M0 ?Mx ?LD \<rho> tm J" if "J \<in> set (allInsts M0)" for J
    by (rule visited_mono [OF vis' [OF that] sx]) simp_all
  show ?thesis
    using M' shx LD dom\<rho> ran\<rho> tmfresh visx by blast
qed

lemma find_map_key:
  assumes "map k xs = map k ys" and "\<And>x. P x = Q (k x)"
  shows "map_option k (find P xs) = map_option k (find P ys)"
  using assms(1)
proof (induction xs arbitrary: ys)
  case Nil
  then show ?case by simp
next
  case (Cons x xs)
  then obtain y ys' where ys: "ys = y # ys'" by (cases ys) auto
  with Cons.prems have kx: "k x = k y" and r: "map k xs = map k ys'" by auto
  have "P x = P y" using assms(2) kx by simp
  then show ?case using Cons.IH [OF r] kx ys by simp
qed

lemma sigsExt_getFunctionAt:
  assumes "sigsExt A B" and "getFunctionAt A p = Some f"
  shows "\<exists>f'. getFunctionAt B p = Some f' \<and> fptr f' = fptr f \<and> fname f' = fname f \<and> ftype f' = ftype f"
proof -
  let ?k = "\<lambda>f. (fptr f, fname f, ftype f)"
  from assms(1) obtain xs where x: "map ?k (functionList B) = map ?k (functionList A) @ xs"
    by (auto simp: sigsExt_def sigs_def)
  let ?n = "length (functionList A)"
  have tk: "map ?k (take ?n (functionList B)) = map ?k (functionList A)"
    using x by (simp add: take_map [symmetric])
  have "map_option ?k (find (\<lambda>f. fptr f = p) (take ?n (functionList B)))
      = map_option ?k (find (\<lambda>f. fptr f = p) (functionList A))"
    by (rule find_map_key [OF tk, of _ "\<lambda>t. fst t = p"]) simp
  with assms(2) obtain f' where f': "find (\<lambda>f. fptr f = p) (take ?n (functionList B)) = Some f'"
    and kk: "?k f' = ?k f"
    by (auto simp: getFunctionAt_def)
  have "find (\<lambda>f. fptr f = p) (take ?n (functionList B) @ drop ?n (functionList B)) = Some f'"
    by (rule find_append_Some [OF f'])
  then have "getFunctionAt B p = Some f'" by (simp add: getFunctionAt_def)
  with kk show ?thesis by auto
qed

lemma sigsExt_getFunction:
  assumes "sigsExt A B" and "getFunction A n = Some f"
  shows "\<exists>f'. getFunction B n = Some f' \<and> fptr f' = fptr f \<and> fname f' = fname f \<and> ftype f' = ftype f"
proof -
  let ?k = "\<lambda>f. (fptr f, fname f, ftype f)"
  from assms(1) obtain xs where x: "map ?k (functionList B) = map ?k (functionList A) @ xs"
    by (auto simp: sigsExt_def sigs_def)
  let ?n = "length (functionList A)"
  have tk: "map ?k (take ?n (functionList B)) = map ?k (functionList A)"
    using x by (simp add: take_map [symmetric])
  have "map_option ?k (find (\<lambda>f. fname f = n) (take ?n (functionList B)))
      = map_option ?k (find (\<lambda>f. fname f = n) (functionList A))"
    by (rule find_map_key [OF tk, of _ "\<lambda>t. fst (snd t) = n"]) simp
  with assms(2) obtain f' where f': "find (\<lambda>f. fname f = n) (take ?n (functionList B)) = Some f'"
    and kk: "?k f' = ?k f"
    by (auto simp: getFunction_def)
  have "find (\<lambda>f. fname f = n) (take ?n (functionList B) @ drop ?n (functionList B)) = Some f'"
    by (rule find_append_Some [OF f'])
  then have "getFunction B n = Some f'" by (simp add: getFunction_def)
  with kk show ?thesis by auto
qed

lemma OneMap_keys: "\<forall>(n, i) \<in> set OneMapEntries. take 13 n = ''__builtin_IB_''"
  by (simp add: OneMapEntries_def)

lemma TwoMap_keys: "\<forall>(n, p) \<in> set TwoMapEntries. take 13 n = ''__builtin_IB_''"
  by (simp add: TwoMapEntries_def)

lemma not_llvm_not_intrinsic:
  assumes "take 5 n = ''__bui''"
  shows "lookupIntrinsicID n = not_intrinsic"
proof -
  have "\<not> startswith n ''llvm.''"
  proof
    assume "startswith n ''llvm.''"
    then have "take 5 n = ''llvm.''" by (simp add: startswith_def eval_nat_numeral)
    with assms show False by simp
  qed
  then show ?thesis by (simp add: lookupIntrinsicID_def)
qed

lemma builtin_not_intrinsic:
  assumes "take 13 n = ''__builtin_IB_''"
  shows "lookupIntrinsicID n = not_intrinsic"
proof -
  have "take 5 (take 13 n) = ''__bui''" using assms by simp
  then have "take 5 n = ''__bui''" by (simp add: min_def)
  then show ?thesis by (rule not_llvm_not_intrinsic)
qed

lemma OneMap_not_intrinsic: "OneMap n = Some i \<Longrightarrow> lookupIntrinsicID n = not_intrinsic"
  using OneMap_keys by (auto simp: OneMap_def dest!: map_of_SomeD intro: builtin_not_intrinsic)

lemma TwoMap_not_intrinsic: "TwoMap n = Some p \<Longrightarrow> lookupIntrinsicID n = not_intrinsic"
  using TwoMap_keys by (auto simp: TwoMap_def dest!: map_of_SomeD intro: builtin_not_intrinsic)

lemma prefix_not_intrinsic:
  assumes "startswith n p" and "take 5 p = ''__bui''"
  shows "lookupIntrinsicID n = not_intrinsic"
proof -
  have l: "5 \<le> length p"
  proof (rule ccontr)
    assume "\<not> 5 \<le> length p"
    then have "length (take 5 p) < 5" by simp
    with assms(2) show False by simp
  qed
  have "take 5 (take (length p) n) = take 5 p" using assms(1) by (simp add: startswith_def)
  then have "take 5 n = take 5 p" using l by (simp add: min_def)
  with assms(2) show ?thesis by (simp add: not_llvm_not_intrinsic)
qed

lemma sigs_internalize [simp]: "sigs (internalize M) = sigs M"
  by (simp add: sigs_def internalize_def comp_def if_distrib [of fptr] if_distrib [of fname] if_distrib [of ftype])

lemma allInsts_internalize [simp]: "allInsts (internalize M) = allInsts M"
proof -
  have "map (\<lambda>f. concat (body f)) (functionList (internalize M)) = map (\<lambda>f. concat (body f)) (functionList M)"
    by (simp add: internalize_def comp_def if_distrib [of body])
  then show ?thesis by (simp add: allInsts_def)
qed

lemma body_internalize:
  "k < length (functionList M) \<Longrightarrow> body (functionList (internalize M) ! k) = body (functionList M ! k)"
  by (simp add: internalize_def)

lemma shaped_block:
  assumes "shaped M0 sg Mx" and "k < length (functionList M0)" and "b < length (body (functionList M0 ! k))"
  shows "k < length (functionList Mx) \<and> body (functionList Mx ! k) ! b = concat (map sg (body (functionList M0 ! k) ! b))"
proof -
  from assms(1) obtain ds where fl: "functionList Mx =
      map (\<lambda>f. f\<lparr>body := map (\<lambda>blk. concat (map sg blk)) (body f)\<rparr>) (functionList M0) @ ds"
    by (auto simp: shaped_def)
  show ?thesis using assms(2,3) by (simp add: fl nth_append)
qed

lemma renameBy_not_dom:
  assumes ran: "\<And>c r. \<rho> c = Some r \<Longrightarrow> r \<notin> dom \<rho>" and a: "a \<in> dom \<rho>"
  shows "renameBy \<rho> v \<noteq> InstV a t"
proof (cases v)
  case (InstV c t')
  show ?thesis
  proof (cases "\<rho> c")
    case None
    with InstV a show ?thesis by (auto simp: renameBy_def)
  next
    case (Some r)
    with InstV ran [OF Some] a show ?thesis by (auto simp: renameBy_def)
  qed
qed (simp_all add: renameBy_def)

lemma lowerDirect_None_iff:
  "(lowerDirect E M J callee cv args = None) = (\<not> matchesName (fname callee))"
  by (simp add: lowerDirect_def matchesName_def getIntrinsicID_def Let_def
           split: option.splits sum.splits prod.splits)

lemma lowerCall_None_sigsExt:
  assumes "sigsExt M Ma" and "\<not> dangling M J"
  shows "(lowerCall E Ma J = None) = (lowerCall E M J = None)"
proof (cases "ik J")
  case (Call cv fty args cc)
  show ?thesis
  proof (cases cv)
    case (FuncV g)
    from assms(2) Call FuncV obtain callee where c: "getFunctionAt M g = Some callee"
      by (auto simp: dangling_def)
    from sigsExt_getFunctionAt [OF assms(1) c] obtain c' where
      "getFunctionAt Ma g = Some c'" "fname c' = fname callee" by blast
    then show ?thesis using Call FuncV c
      by (simp add: lowerCall_def getCalledFunction_def lowerDirect_None_iff)
  qed (simp_all add: lowerCall_def getCalledFunction_def Call)
qed (simp_all add: lowerCall_def)

lemma lowerCall_not_dangling: "lowerCall E M J \<noteq> None \<Longrightarrow> \<not> dangling M J"
  by (auto simp: lowerCall_def dangling_def getCalledFunction_def split: instKind.splits option.splits)

lemma visited_cases:
  assumes vis: "visited E M M' LD \<rho> tm J" and nd: "\<not> dangling M J"
  shows "(lowerCall E M J = None \<longrightarrow> tm (addr J) = [] \<and> addr J \<notin> set LD \<and> \<rho> (addr J) = None)
       \<and> (lowerCall E M J \<noteq> None \<longrightarrow> addr J \<in> set LD
             \<and> \<rho> (addr J) = (if tm (addr J) = [] then None else Some (addr (last (tm (addr J))))))"
proof -
  from vis obtain Ma where a: "sigsExt M Ma"
    and c: "(case lowerCall E Ma J of
           None \<Rightarrow> tm (addr J) = [] \<and> addr J \<notin> set LD \<and> \<rho> (addr J) = None
         | Some (Inl e) \<Rightarrow> False
         | Some (Inr (M1, news)) \<Rightarrow>
             tm (addr J) = news \<and> addr J \<in> set LD \<and> sigsExt M1 M' \<and>
             (if news = [] then \<rho> (addr J) = None
              else \<rho> (addr J) = Some (addr (last news)) \<and> instType (last news) = instType J))"
    unfolding visited_def by blast
  note eq = lowerCall_None_sigsExt [OF a nd, of E]
  show ?thesis
  proof (cases "lowerCall E Ma J")
    case None
    with c eq show ?thesis by simp
  next
    case (Some res)
    then have ne: "lowerCall E M J \<noteq> None" using eq by simp
    show ?thesis
    proof (cases res)
      case (Inl e)
      with c Some show ?thesis by simp
    next
      case (Inr pr)
      with c Some ne show ?thesis by (cases pr) (simp split: if_splits)
    qed
  qed
qed

lemma runOnModule_rewritten:
  assumes dist: "distinct (addrs M)" and run: "runOnModule E M = Inr M'"
  shows "\<exists>\<rho> tm LD. rewritten E M M' \<rho> (out \<rho> tm (set LD)) \<and> set LD \<subseteq> set (addrs M) \<and> dom \<rho> \<subseteq> set LD
      \<and> (\<forall>a N. N \<in> set (tm a) \<longrightarrow> addr N \<notin> set (addrs M))
      \<and> (\<forall>J \<in> set (allInsts M). visited E M M' LD \<rho> tm J)"
proof -
  from runOnModule_structure [OF dist run] obtain \<rho> tm LD Mx where
    M': "M' = internalize Mx" and sh: "shaped M (out \<rho> tm (set LD)) Mx"
    and LD: "set LD \<subseteq> set (addrs M)" and dom: "dom \<rho> \<subseteq> set LD"
    and ran: "\<And>a r. \<rho> a = Some r \<Longrightarrow> r \<notin> set (addrs M)"
    and fresh: "\<And>a N. N \<in> set (tm a) \<Longrightarrow> addr N \<notin> set (addrs M)"
    and vis: "\<And>J. J \<in> set (allInsts M) \<Longrightarrow> visited E M Mx LD \<rho> tm J"
    by blast
  let ?tr = "out \<rho> tm (set LD)"
  let ?g = "renameBy \<rho>"
  have ai: "allInsts M' = concat (map ?tr (allInsts M))"
    by (simp add: M' shaped_allInsts [OF sh])
  have origin: "(\<exists>a N. N \<in> set (tm a) \<and> X = renameI ?g N) \<or> (\<exists>J \<in> set (allInsts M). addr J \<notin> set LD \<and> X = renameI ?g J)"
    if "X \<in> set (allInsts M')" for X
    using that unfolding ai by (auto simp: out_def split: if_splits)
  have g1: "a \<notin> set (addrs M')" if a: "a \<in> set LD" for a
  proof
    assume "a \<in> set (addrs M')"
    then obtain X where X: "X \<in> set (allInsts M')" "addr X = a" by (auto simp: addrs_def)
    from origin [OF X(1)] show False
    proof
      assume "\<exists>b N. N \<in> set (tm b) \<and> X = renameI ?g N"
      then obtain b N where "N \<in> set (tm b)" "X = renameI ?g N" by blast
      with fresh [of N b] X(2) a LD show False by auto
    next
      assume "\<exists>J \<in> set (allInsts M). addr J \<notin> set LD \<and> X = renameI ?g J"
      with X(2) a show False by auto
    qed
  qed
  have c1: "\<exists>Mx. M' = internalize Mx \<and> shaped M ?tr Mx"
    using M' sh by blast
  have c2: "\<forall>J \<in> set (allInsts M). ?tr J = [renameI ?g J]
            \<or> (addr J \<notin> set (addrs M') \<and> (\<forall>X \<in> set (?tr J). addr X \<notin> set (addrs M)))"
  proof
    fix J assume "J \<in> set (allInsts M)"
    show "?tr J = [renameI ?g J] \<or> (addr J \<notin> set (addrs M') \<and> (\<forall>X \<in> set (?tr J). addr X \<notin> set (addrs M)))"
    proof (cases "addr J \<in> set LD")
      case True
      then show ?thesis using g1 fresh by (auto simp: out_def)
    next
      case False
      then show ?thesis by (simp add: out_def)
    qed
  qed
  have c2': "\<forall>J \<in> set (allInsts M).
            (lowerCall E M J = None \<longrightarrow> \<not> dangling M J \<longrightarrow> ?tr J = [renameI ?g J])
            \<and> (lowerCall E M J \<noteq> None \<longrightarrow>
                  addr J \<notin> set (addrs M') \<and> (\<forall>X \<in> set (?tr J). addr X \<notin> set (addrs M))
                  \<and> \<rho> (addr J) = (if ?tr J = [] then None else Some (addr (last (?tr J)))))
            \<and> (?tr J = [renameI ?g J]
                \<or> (addr J \<notin> set (addrs M') \<and> (\<forall>X \<in> set (?tr J). addr X \<notin> set (addrs M))))"
  proof (intro ballI)
    fix J assume J: "J \<in> set (allInsts M)"
    have C: "?tr J = [renameI ?g J]
            \<or> (addr J \<notin> set (addrs M') \<and> (\<forall>X \<in> set (?tr J). addr X \<notin> set (addrs M)))"
      using c2 J by blast
    have A: "lowerCall E M J = None \<longrightarrow> \<not> dangling M J \<longrightarrow> ?tr J = [renameI ?g J]"
    proof (intro impI)
      assume n: "lowerCall E M J = None" and nd: "\<not> dangling M J"
      from visited_cases [OF vis [OF J] nd] n have "addr J \<notin> set LD" by blast
      then show "?tr J = [renameI ?g J]" by (simp add: out_def)
    qed
    have B: "lowerCall E M J \<noteq> None \<longrightarrow>
                  addr J \<notin> set (addrs M') \<and> (\<forall>X \<in> set (?tr J). addr X \<notin> set (addrs M))
                  \<and> \<rho> (addr J) = (if ?tr J = [] then None else Some (addr (last (?tr J))))"
    proof (intro impI)
      assume n: "lowerCall E M J \<noteq> None"
      from visited_cases [OF vis [OF J] lowerCall_not_dangling [OF n]] n
      have in_LD: "addr J \<in> set LD"
        and r: "\<rho> (addr J) = (if tm (addr J) = [] then None else Some (addr (last (tm (addr J)))))"
        by blast+
      have trJ: "?tr J = map (renameI ?g) (tm (addr J))" using in_LD by (simp add: out_def)
      have b1: "addr J \<notin> set (addrs M')" by (rule g1 [OF in_LD])
      have b2: "\<forall>X \<in> set (?tr J). addr X \<notin> set (addrs M)"
        unfolding trJ using fresh by auto
      have b3: "\<rho> (addr J) = (if ?tr J = [] then None else Some (addr (last (?tr J))))"
        unfolding trJ r by (simp add: last_map)
      show "addr J \<notin> set (addrs M') \<and> (\<forall>X \<in> set (?tr J). addr X \<notin> set (addrs M))
                  \<and> \<rho> (addr J) = (if ?tr J = [] then None else Some (addr (last (?tr J))))"
        by (intro conjI b1 b2 b3)
    qed
    show "(lowerCall E M J = None \<longrightarrow> \<not> dangling M J \<longrightarrow> ?tr J = [renameI ?g J])
            \<and> (lowerCall E M J \<noteq> None \<longrightarrow>
                  addr J \<notin> set (addrs M') \<and> (\<forall>X \<in> set (?tr J). addr X \<notin> set (addrs M))
                  \<and> \<rho> (addr J) = (if ?tr J = [] then None else Some (addr (last (?tr J)))))
            \<and> (?tr J = [renameI ?g J]
                \<or> (addr J \<notin> set (addrs M') \<and> (\<forall>X \<in> set (?tr J). addr X \<notin> set (addrs M))))"
      by (rule conjI [OF A conjI [OF B C]])
  qed
  have c3: "\<forall>a r. \<rho> a = Some r \<longrightarrow> a \<in> set (addrs M) \<and> a \<notin> set (addrs M') \<and> r \<notin> set (addrs M)"
    using dom LD g1 ran by blast
  have rd: "r \<notin> dom \<rho>" if "\<rho> c = Some r" for c r
    using ran [OF that] dom LD by blast
  have c4: "\<forall>X \<in> set (allInsts M'). \<forall>a \<in> dom \<rho>. \<forall>t. InstV a t \<notin> set (operands (ik X))"
  proof (intro ballI allI)
    fix X a t assume X: "X \<in> set (allInsts M')" and a: "a \<in> dom \<rho>"
    from origin [OF X] obtain Y where "X = renameI ?g Y" by blast
    then have eq: "set (operands (ik X)) = ?g ` set (operands (ik Y))" by simp
    have nd: "renameBy \<rho> v \<noteq> InstV a t" for v
      by (rule renameBy_not_dom [OF rd a])
    show "InstV a t \<notin> set (operands (ik X))"
    proof
      assume "InstV a t \<in> set (operands (ik X))"
      then obtain v where "renameBy \<rho> v = InstV a t" unfolding eq by (auto simp: image_iff)
      with nd [of v] show False by simp
    qed
  qed
  have sx: "sigsExt Mx M'" by (simp add: sigsExt_def M')
  have vis': "\<forall>J \<in> set (allInsts M). visited E M M' LD \<rho> tm J"
  proof
    fix J assume "J \<in> set (allInsts M)"
    show "visited E M M' LD \<rho> tm J"
      by (rule visited_mono [OF vis [OF \<open>J \<in> set (allInsts M)\<close>] sx]) simp_all
  qed
  have "rewritten E M M' \<rho> ?tr"
    unfolding rewritten_def by (intro conjI c1 c2' c3 c4)
  then show ?thesis using LD dom fresh vis' by blast
qed

lemma block_mem_allInsts:
  assumes "k < length (functionList M)" and "b < length (body (functionList M ! k))"
    and "body (functionList M ! k) ! b = pre @ I # post"
  shows "I \<in> set (allInsts M)"
proof -
  have "functionList M ! k \<in> set (functionList M)" using assms(1) by simp
  moreover have "body (functionList M ! k) ! b \<in> set (body (functionList M ! k))" using assms(2) by simp
  moreover have "I \<in> set (body (functionList M ! k) ! b)" using assms(3) by simp
  ultimately show ?thesis by (rule mem_allInsts)
qed

lemma visited_direct:
  assumes vis: "visited E M M' LD \<rho> tm J"
    and call: "ik J = Call (FuncV g) fty args cc"
    and callee: "getFunctionAt M g = Some callee"
  obtains Ma callee' where "sigsExt M Ma" and "set (addrs M) \<subseteq> set (addrs Ma)"
    and "getFunctionAt Ma g = Some callee'" and "fname callee' = fname callee" and "ftype callee' = ftype callee"
    and "lowerDirect E Ma J callee' (FuncV g) args = None
           \<Longrightarrow> tm (addr J) = [] \<and> addr J \<notin> set LD \<and> \<rho> (addr J) = None"
    and "\<And>e. lowerDirect E Ma J callee' (FuncV g) args \<noteq> Some (Inl e)"
    and "\<And>M1 news. lowerDirect E Ma J callee' (FuncV g) args = Some (Inr (M1, news))
           \<Longrightarrow> tm (addr J) = news \<and> addr J \<in> set LD \<and> sigsExt M1 M' \<and>
               (if news = [] then \<rho> (addr J) = None
                else \<rho> (addr J) = Some (addr (last news)) \<and> instType (last news) = instType J)"
proof -
  from vis obtain Ma where a: "sigsExt M Ma" "set (addrs M) \<subseteq> set (addrs Ma)"
    and c: "(case lowerCall E Ma J of
           None \<Rightarrow> tm (addr J) = [] \<and> addr J \<notin> set LD \<and> \<rho> (addr J) = None
         | Some (Inl e) \<Rightarrow> False
         | Some (Inr (M1, news)) \<Rightarrow>
             tm (addr J) = news \<and> addr J \<in> set LD \<and> sigsExt M1 M' \<and>
             (if news = [] then \<rho> (addr J) = None
              else \<rho> (addr J) = Some (addr (last news)) \<and> instType (last news) = instType J))"
    unfolding visited_def by blast
  from sigsExt_getFunctionAt [OF a(1) callee] obtain callee' where
    c': "getFunctionAt Ma g = Some callee'" "fname callee' = fname callee" "ftype callee' = ftype callee"
    by blast
  have lc: "lowerCall E Ma J = lowerDirect E Ma J callee' (FuncV g) args"
    using call c'(1) by (simp add: lowerCall_def getCalledFunction_def)
  show ?thesis
  proof (rule that [OF a c'])
    show "lowerDirect E Ma J callee' (FuncV g) args = None
           \<Longrightarrow> tm (addr J) = [] \<and> addr J \<notin> set LD \<and> \<rho> (addr J) = None"
      using c unfolding lc by simp
    show "lowerDirect E Ma J callee' (FuncV g) args \<noteq> Some (Inl e)" for e
      using c unfolding lc by auto
    show "lowerDirect E Ma J callee' (FuncV g) args = Some (Inr (M1, news))
           \<Longrightarrow> tm (addr J) = news \<and> addr J \<in> set LD \<and> sigsExt M1 M' \<and>
               (if news = [] then \<rho> (addr J) = None
                else \<rho> (addr J) = Some (addr (last news)) \<and> instType (last news) = instType J)" for M1 news
      using c unfolding lc by simp
  qed
qed

lemma lowerDirect_OneMap:
  assumes "OneMap (fname callee) = Some IID"
  shows "lowerDirect E Ma J callee cv args =
     (case getDeclaration E Ma IID [getReturnType (ftype callee)] of
        Inl e \<Rightarrow> Some (Inl e)
      | Inr (M1, F) \<Rightarrow> Some (Inr (M1, [CallInst_Create F args J (newAddr Ma)])))"
  using assms OneMap_not_intrinsic [OF assms]
  by (simp add: lowerDirect_def getIntrinsicID_def Let_def)

lemma rewritten_block:
  assumes "rewritten E M M' \<rho> tr" and "k < length (functionList M)" and "b < length (body (functionList M ! k))"
    and "body (functionList M ! k) ! b = pre @ I # post"
  shows "body (functionList M' ! k) ! b = concat (map tr pre) @ tr I @ concat (map tr post)"
proof -
  from assms(1) obtain Mx where M': "M' = internalize Mx" and sh: "shaped M tr Mx"
    unfolding rewritten_def by blast
  from shaped_block [OF sh assms(2,3)] show ?thesis
    by (simp add: M' body_internalize assms(4))
qed

lemma rewritten_gone: "rewritten E M M' \<rho> tr \<Longrightarrow> \<rho> a = Some r \<Longrightarrow> a \<notin> set (addrs M')"
  by (simp add: rewritten_def)

text \<open>
  Claim C1. Let \<open>I\<close> be a call in block \<open>b\<close> of function \<open>k\<close> of the module whose called
  value is the function \<open>callee\<close> and let the name of \<open>callee\<close> be a key of the
  one-intrinsic table, with target \<open>IID\<close>. When the rewriter returns the module \<open>M'\<close>, the
  call is no longer in \<open>M'\<close>; in its place, between what the pass made of the instructions
  before it and what it made of those after it, stands exactly one instruction \<open>N\<close>, which
  is new. \<open>N\<close> is a call of the declaration that \<open>M'\<close> has for the intrinsic \<open>IID\<close>
  instantiated with the return type of \<open>callee\<close>; its arguments are the arguments of \<open>I\<close> in
  their order, each renamed by \<open>\<rho>\<close>, which replaces the result of a deleted call by the
  result of the instruction that replaced it. \<open>N\<close> has the debug location of \<open>I\<close> and the
  default calling convention. Everything else in \<open>M'\<close> is as \<open>rewritten\<close> says: every
  instruction on which no case of the loop body applies is still there, at its place,
  with its operands renamed by \<open>\<rho>\<close>, which maps \<open>I\<close> to \<open>N\<close>; the others are gone; and no
  operand in \<open>M'\<close> refers to \<open>I\<close>.
\<close>

theorem OneMap_call_rewritten:
  assumes dist: "distinct (addrs M)"
    and k: "k < length (functionList M)" and b: "b < length (body (functionList M ! k))"
    and blk: "body (functionList M ! k) ! b = pre @ I # post"
    and call: "ik I = Call (FuncV g) fty args cc"
    and callee: "getFunctionAt M g = Some callee"
    and key: "OneMap (fname callee) = Some IID"
    and run: "runOnModule E M = Inr M'"
  shows "\<exists>\<rho> tr N decl. rewritten E M M' \<rho> tr
       \<and> body (functionList M' ! k) ! b = concat (map tr pre) @ N # concat (map tr post)
       \<and> addr I \<notin> set (addrs M') \<and> addr N \<notin> set (addrs M)
       \<and> \<rho> (addr I) = Some (addr N)
       \<and> getFunction M' (Intrinsic_getName IID [getReturnType (ftype callee)]) = Some decl
       \<and> N = \<lparr>addr = addr N, dbgLoc = dbgLoc I,
               ik = Call (FuncV (fptr decl)) (intrinsicType E IID [getReturnType (ftype callee)])
                      (map (renameBy \<rho>) args) 0\<rparr>"
proof -
  from runOnModule_rewritten [OF dist run] obtain \<rho> tm LD where
    rw: "rewritten E M M' \<rho> (out \<rho> tm (set LD))"
    and vis: "\<And>J. J \<in> set (allInsts M) \<Longrightarrow> visited E M M' LD \<rho> tm J"
    by blast
  let ?tr = "out \<rho> tm (set LD)"
  have IM: "I \<in> set (allInsts M)" by (rule block_mem_allInsts [OF k b blk])
  from visited_direct [OF vis [OF IM] call callee] obtain Ma callee' where
    sub: "set (addrs M) \<subseteq> set (addrs Ma)"
    and nm: "fname callee' = fname callee" and ft: "ftype callee' = ftype callee"
    and noerr: "\<And>e. lowerDirect E Ma I callee' (FuncV g) args \<noteq> Some (Inl e)"
    and ok: "\<And>M1 news. lowerDirect E Ma I callee' (FuncV g) args = Some (Inr (M1, news))
           \<Longrightarrow> tm (addr I) = news \<and> addr I \<in> set LD \<and> sigsExt M1 M' \<and>
               (if news = [] then \<rho> (addr I) = None
                else \<rho> (addr I) = Some (addr (last news)) \<and> instType (last news) = instType I)"
    by metis
  let ?ret = "getReturnType (ftype callee)"
  have key': "OneMap (fname callee') = Some IID" using key nm by simp
  note ld = lowerDirect_OneMap [OF key', of E Ma I "FuncV g" args, unfolded ft]
  obtain M1 F where gd: "getDeclaration E Ma IID [?ret] = Inr (M1, F)"
    using noerr ld by (cases "getDeclaration E Ma IID [?ret]") auto
  let ?N0 = "CallInst_Create F args I (newAddr Ma)"
  have low: "lowerDirect E Ma I callee' (FuncV g) args = Some (Inr (M1, [?N0]))"
    using ld gd by simp
  from ok [OF low] have tmI: "tm (addr I) = [?N0]" and del: "addr I \<in> set LD"
    and s1: "sigsExt M1 M'" and rI: "\<rho> (addr I) = Some (newAddr Ma)"
    by (simp_all add: CallInst_Create_def)
  let ?N = "renameI (renameBy \<rho>) ?N0"
  have trI: "?tr I = [?N]" using tmI del by (simp add: out_def)
  from getDeclaration_shape [OF gd] have gf: "getFunction M1 (Intrinsic_getName IID [?ret]) = Some F"
    and fty: "ftype F = intrinsicType E IID [?ret]" by blast+
  from sigsExt_getFunction [OF s1 gf] obtain decl where
    decl: "getFunction M' (Intrinsic_getName IID [?ret]) = Some decl" "fptr decl = fptr F"
    by blast
  have Neq: "?N = \<lparr>addr = addr ?N, dbgLoc = dbgLoc I,
               ik = Call (FuncV (fptr decl)) (intrinsicType E IID [?ret]) (map (renameBy \<rho>) args) 0\<rparr>"
    by (simp add: renameI_def CallInst_Create_def decl(2) fty)
  have fresh: "addr ?N \<notin> set (addrs M)"
    using newAddr_notin [of Ma] sub by (auto simp: CallInst_Create_def)
  have rN: "\<rho> (addr I) = Some (addr ?N)" using rI by (simp add: CallInst_Create_def)
  have blk': "body (functionList M' ! k) ! b = concat (map ?tr pre) @ ?N # concat (map ?tr post)"
    using rewritten_block [OF rw k b blk] trI by simp
  have gone: "addr I \<notin> set (addrs M')" by (rule rewritten_gone [OF rw rN])
  show ?thesis
    using rw blk' gone fresh rN decl(1) Neq by blast
qed

theorem OneMap_call_rewritten_witness:
  "distinct (addrs cvtMain)
   \<and> (0::nat) < length (functionList cvtMain)
   \<and> (0::nat) < length (body (functionList cvtMain ! 0))
   \<and> body (functionList cvtMain ! 0) ! 0 =
      [mkInst 10 (Call (FuncV 2) floatFn [ArgV 0 FloatTy] 0),
       mkInst 11 (Call (FuncV 3) i32FromDouble [ArgV 1 DoubleTy] 0)]
      @ mkInst 12 (Call (FuncV 2) floatFn [InstV 10 FloatTy] 0)
      # [mkInst 13 (OtherInst [InstV 12 FloatTy, InstV 11 (IntegerTy 32)] VoidTy)]
   \<and> ik (mkInst 12 (Call (FuncV 2) floatFn [InstV 10 FloatTy] 0)) = Call (FuncV 2) floatFn [InstV 10 FloatTy] 0
   \<and> getFunctionAt cvtMain 2 = Some (mkFunc 2 ''__builtin_IB_frnd_ne'' floatFn 0 [])
   \<and> OneMap (fname (mkFunc 2 ''__builtin_IB_frnd_ne'' floatFn 0 [])) = Some genx_rnde
   \<and> runOnModule debugBuild cvtMain = Inr cvtMainOut
   \<and> (\<exists>\<rho> tr N decl. rewritten debugBuild cvtMain cvtMainOut \<rho> tr
       \<and> body (functionList cvtMainOut ! 0) ! 0 =
           concat (map tr [mkInst 10 (Call (FuncV 2) floatFn [ArgV 0 FloatTy] 0),
                           mkInst 11 (Call (FuncV 3) i32FromDouble [ArgV 1 DoubleTy] 0)])
           @ N # concat (map tr [mkInst 13 (OtherInst [InstV 12 FloatTy, InstV 11 (IntegerTy 32)] VoidTy)])
       \<and> addr (mkInst 12 (Call (FuncV 2) floatFn [InstV 10 FloatTy] 0)) \<notin> set (addrs cvtMainOut)
       \<and> addr N \<notin> set (addrs cvtMain)
       \<and> \<rho> (addr (mkInst 12 (Call (FuncV 2) floatFn [InstV 10 FloatTy] 0))) = Some (addr N)
       \<and> getFunction cvtMainOut
            (Intrinsic_getName genx_rnde [getReturnType (ftype (mkFunc 2 ''__builtin_IB_frnd_ne'' floatFn 0 []))])
           = Some decl
       \<and> N = \<lparr>addr = addr N, dbgLoc = dbgLoc (mkInst 12 (Call (FuncV 2) floatFn [InstV 10 FloatTy] 0)),
               ik = Call (FuncV (fptr decl))
                      (intrinsicType debugBuild genx_rnde [getReturnType (ftype (mkFunc 2 ''__builtin_IB_frnd_ne'' floatFn 0 []))])
                      (map (renameBy \<rho>) [InstV 10 FloatTy]) 0\<rparr>)"
proof -
  have h1: "distinct (addrs cvtMain)"
    by code_simp
  have h2: "(0::nat) < length (functionList cvtMain)"
    by code_simp
  have h3: "(0::nat) < length (body (functionList cvtMain ! 0))"
    by code_simp
  have h4: "body (functionList cvtMain ! 0) ! 0 =
      [mkInst 10 (Call (FuncV 2) floatFn [ArgV 0 FloatTy] 0),
       mkInst 11 (Call (FuncV 3) i32FromDouble [ArgV 1 DoubleTy] 0)]
      @ mkInst 12 (Call (FuncV 2) floatFn [InstV 10 FloatTy] 0)
      # [mkInst 13 (OtherInst [InstV 12 FloatTy, InstV 11 (IntegerTy 32)] VoidTy)]"
    by code_simp
  have h5: "ik (mkInst 12 (Call (FuncV 2) floatFn [InstV 10 FloatTy] 0)) = Call (FuncV 2) floatFn [InstV 10 FloatTy] 0"
    by code_simp
  have h6: "getFunctionAt cvtMain 2 = Some (mkFunc 2 ''__builtin_IB_frnd_ne'' floatFn 0 [])"
    by code_simp
  have h7: "OneMap (fname (mkFunc 2 ''__builtin_IB_frnd_ne'' floatFn 0 [])) = Some genx_rnde"
    by code_simp
  have h8: "runOnModule debugBuild cvtMain = Inr cvtMainOut"
    by code_simp
  note c = OneMap_call_rewritten [OF h1 h2 h3 h4 h5 h6 h7 h8]
  show ?thesis
    by (intro conjI h1 h2 h3 h4 h5 h6 h7 h8 c)
qed

lemma TwoMap_not_OneMap_entries: "\<forall>(n, p) \<in> set TwoMapEntries. OneMap n = None"
  by (simp add: TwoMapEntries_def OneMap_def OneMapEntries_def)

lemma TwoMap_not_OneMap: "TwoMap n = Some p \<Longrightarrow> OneMap n = None"
  using TwoMap_not_OneMap_entries by (auto simp: TwoMap_def dest!: map_of_SomeD)

lemma lowerDirect_TwoMap:
  assumes "TwoMap (fname callee) = Some (id0, id1)"
  shows "lowerDirect E Ma J callee cv args =
     (case getArgOperand args 0 of
        Inl e \<Rightarrow> Some (Inl e)
      | Inr arg0 \<Rightarrow>
         (case getDeclaration E Ma id0 [getType arg0] of
            Inl e \<Rightarrow> Some (Inl e)
          | Inr (M1, F0) \<Rightarrow>
              (case getDeclaration E M1 id1 [getReturnType (ftype callee), getReturnType (ftype F0)] of
                 Inl e \<Rightarrow> Some (Inl e)
               | Inr (M2, F1) \<Rightarrow>
                   Some (Inr (M2, [CallInst_Create F0 args J (newAddr Ma),
                      CallInst_Create F1 [InstV (newAddr Ma) (getReturnType (ftype F0))] J (Suc (newAddr Ma))])))))"
  using assms TwoMap_not_intrinsic [OF assms] TwoMap_not_OneMap [OF assms]
  by (simp add: lowerDirect_def getIntrinsicID_def Let_def resultOf_def CallInst_Create_def instType_def
           split: sum.splits prod.splits)

lemma runOnModule_rewritten':
  assumes dist: "distinct (addrs M)" and run: "runOnModule E M = Inr M'"
  obtains \<rho> tm LD where "rewritten E M M' \<rho> (out \<rho> tm (set LD))"
    and "\<And>a. \<rho> a \<noteq> None \<Longrightarrow> a \<in> set (addrs M)"
    and "\<And>J. J \<in> set (allInsts M) \<Longrightarrow> visited E M M' LD \<rho> tm J"
proof -
  from runOnModule_rewritten [OF dist run] obtain \<rho> tm LD where
    rw: "rewritten E M M' \<rho> (out \<rho> tm (set LD))" and LD: "set LD \<subseteq> set (addrs M)" and dom: "dom \<rho> \<subseteq> set LD"
    and vis: "\<And>J. J \<in> set (allInsts M) \<Longrightarrow> visited E M M' LD \<rho> tm J"
    by blast
  have d: "a \<in> set (addrs M)" if "\<rho> a \<noteq> None" for a
    using that dom LD by blast
  show ?thesis by (rule that [OF rw d vis])
qed

text \<open>
  Claim C2. Let \<open>I\<close> be a call whose called value is the function \<open>callee\<close> and let the name
  of \<open>callee\<close> be a key of the two-intrinsic table, with the pair \<open>(id0, id1)\<close>. When the
  rewriter returns \<open>M'\<close>, the call is no longer in \<open>M'\<close>, and in its place stand exactly two
  new instructions \<open>N0\<close> and \<open>N1\<close>, in this order. \<open>N0\<close> calls the declaration of \<open>id0\<close>
  instantiated with the type of the first argument of \<open>I\<close>, with all the arguments of \<open>I\<close>
  (renamed by \<open>\<rho>\<close>). \<open>N1\<close> calls the declaration of \<open>id1\<close> instantiated with the return
  type of \<open>callee\<close> and the result type of \<open>N0\<close>; its only argument is the result of \<open>N0\<close>.
  The uses of \<open>I\<close> are renamed to \<open>N1\<close>: \<open>\<rho>\<close> maps \<open>I\<close> to \<open>N1\<close>, and the rest of \<open>M'\<close> is as
  \<open>rewritten\<close> says.
\<close>

theorem TwoMap_call_rewritten:
  assumes dist: "distinct (addrs M)"
    and k: "k < length (functionList M)" and b: "b < length (body (functionList M ! k))"
    and blk: "body (functionList M ! k) ! b = pre @ I # post"
    and call: "ik I = Call (FuncV g) fty args cc"
    and callee: "getFunctionAt M g = Some callee"
    and key: "TwoMap (fname callee) = Some (id0, id1)"
    and run: "runOnModule E M = Inr M'"
  shows "\<exists>\<rho> tr N0 N1 decl0 decl1 arg0 rest. rewritten E M M' \<rho> tr
       \<and> body (functionList M' ! k) ! b = concat (map tr pre) @ N0 # N1 # concat (map tr post)
       \<and> addr I \<notin> set (addrs M') \<and> addr N0 \<notin> set (addrs M) \<and> addr N1 \<notin> set (addrs M)
       \<and> addr N0 \<noteq> addr N1
       \<and> \<rho> (addr I) = Some (addr N1)
       \<and> args = arg0 # rest
       \<and> getFunction M' (Intrinsic_getName id0 [getType arg0]) = Some decl0
       \<and> getFunction M' (Intrinsic_getName id1
             [getReturnType (ftype callee), getReturnType (intrinsicType E id0 [getType arg0])]) = Some decl1
       \<and> N0 = \<lparr>addr = addr N0, dbgLoc = dbgLoc I,
                ik = Call (FuncV (fptr decl0)) (intrinsicType E id0 [getType arg0]) (map (renameBy \<rho>) args) 0\<rparr>
       \<and> N1 = \<lparr>addr = addr N1, dbgLoc = dbgLoc I,
                ik = Call (FuncV (fptr decl1))
                       (intrinsicType E id1 [getReturnType (ftype callee), getReturnType (intrinsicType E id0 [getType arg0])])
                       [InstV (addr N0) (getReturnType (intrinsicType E id0 [getType arg0]))] 0\<rparr>"
proof -
  from runOnModule_rewritten' [OF dist run] obtain \<rho> tm LD where
    rw: "rewritten E M M' \<rho> (out \<rho> tm (set LD))"
    and dom: "\<And>a. \<rho> a \<noteq> None \<Longrightarrow> a \<in> set (addrs M)"
    and vis: "\<And>J. J \<in> set (allInsts M) \<Longrightarrow> visited E M M' LD \<rho> tm J"
    by blast
  let ?tr = "out \<rho> tm (set LD)"
  have IM: "I \<in> set (allInsts M)" by (rule block_mem_allInsts [OF k b blk])
  from visited_direct [OF vis [OF IM] call callee] obtain Ma callee' where
    sub: "set (addrs M) \<subseteq> set (addrs Ma)"
    and nm: "fname callee' = fname callee" and ft: "ftype callee' = ftype callee"
    and noerr: "\<And>e. lowerDirect E Ma I callee' (FuncV g) args \<noteq> Some (Inl e)"
    and ok: "\<And>M1 news. lowerDirect E Ma I callee' (FuncV g) args = Some (Inr (M1, news))
           \<Longrightarrow> tm (addr I) = news \<and> addr I \<in> set LD \<and> sigsExt M1 M' \<and>
               (if news = [] then \<rho> (addr I) = None
                else \<rho> (addr I) = Some (addr (last news)) \<and> instType (last news) = instType I)"
    by metis
  let ?ret = "getReturnType (ftype callee)"
  let ?a = "newAddr Ma"
  have key': "TwoMap (fname callee') = Some (id0, id1)" using key nm by simp
  note ld = lowerDirect_TwoMap [OF key', of E Ma I "FuncV g" args, unfolded ft]
  obtain arg0 where a0: "getArgOperand args 0 = Inr arg0"
    using noerr ld by (cases "getArgOperand args 0") auto
  then obtain rest where args: "args = arg0 # rest"
    by (cases args) (auto simp: getArgOperand_def)
  obtain M1 F0 where gd0: "getDeclaration E Ma id0 [getType arg0] = Inr (M1, F0)"
    using noerr ld a0 by (cases "getDeclaration E Ma id0 [getType arg0]") auto
  from getDeclaration_shape [OF gd0] have gf0: "getFunction M1 (Intrinsic_getName id0 [getType arg0]) = Some F0"
    and fty0: "ftype F0 = intrinsicType E id0 [getType arg0]" and ext0: "declsExt Ma M1" by blast+
  let ?t0 = "getReturnType (intrinsicType E id0 [getType arg0])"
  obtain M2 F1 where gd1: "getDeclaration E M1 id1 [?ret, ?t0] = Inr (M2, F1)"
    using noerr ld a0 gd0 fty0 by (cases "getDeclaration E M1 id1 [?ret, ?t0]") auto
  from getDeclaration_shape [OF gd1] have gf1: "getFunction M2 (Intrinsic_getName id1 [?ret, ?t0]) = Some F1"
    and fty1: "ftype F1 = intrinsicType E id1 [?ret, ?t0]" and ext1: "declsExt M1 M2" by blast+
  let ?T0 = "CallInst_Create F0 args I ?a"
  let ?T1 = "CallInst_Create F1 [InstV ?a ?t0] I (Suc ?a)"
  have low: "lowerDirect E Ma I callee' (FuncV g) args = Some (Inr (M2, [?T0, ?T1]))"
    using ld a0 gd0 gd1 fty0 by simp
  from ok [OF low] have tmI: "tm (addr I) = [?T0, ?T1]" and del: "addr I \<in> set LD"
    and s2: "sigsExt M2 M'" and rI: "\<rho> (addr I) = Some (Suc ?a)"
    by (simp_all add: CallInst_Create_def)
  have s1: "sigsExt M1 M'" by (rule sigsExt_trans [OF declsExt_sigsExt [OF ext1] s2])
  let ?N0 = "renameI (renameBy \<rho>) ?T0"
  let ?N1 = "renameI (renameBy \<rho>) ?T1"
  have trI: "?tr I = [?N0, ?N1]" using tmI del by (simp add: out_def)
  from sigsExt_getFunction [OF s1 gf0] obtain decl0 where
    decl0: "getFunction M' (Intrinsic_getName id0 [getType arg0]) = Some decl0" "fptr decl0 = fptr F0"
    by blast
  from sigsExt_getFunction [OF s2 gf1] obtain decl1 where
    decl1: "getFunction M' (Intrinsic_getName id1 [?ret, ?t0]) = Some decl1" "fptr decl1 = fptr F1"
    by blast
  have an: "?a \<notin> set (addrs M)" using newAddr_notin [of Ma] sub by blast
  have san: "Suc ?a \<notin> set (addrs M)" using Suc_newAddr_notin [of Ma] sub by blast
  have \<rho>a: "\<rho> ?a = None" using dom [of ?a] an by blast
  have N0eq: "?N0 = \<lparr>addr = addr ?N0, dbgLoc = dbgLoc I,
                ik = Call (FuncV (fptr decl0)) (intrinsicType E id0 [getType arg0]) (map (renameBy \<rho>) args) 0\<rparr>"
    by (simp add: renameI_def CallInst_Create_def decl0(2) fty0)
  have N1eq: "?N1 = \<lparr>addr = addr ?N1, dbgLoc = dbgLoc I,
                ik = Call (FuncV (fptr decl1)) (intrinsicType E id1 [?ret, ?t0]) [InstV (addr ?N0) ?t0] 0\<rparr>"
    using \<rho>a by (simp add: renameI_def CallInst_Create_def decl1(2) fty1 renameBy_def)
  have f0: "addr ?N0 \<notin> set (addrs M)" using an by (simp add: CallInst_Create_def)
  have f1: "addr ?N1 \<notin> set (addrs M)" using san by (simp add: CallInst_Create_def)
  have ne: "addr ?N0 \<noteq> addr ?N1" by (simp add: CallInst_Create_def)
  have rN: "\<rho> (addr I) = Some (addr ?N1)" using rI by (simp add: CallInst_Create_def)
  have blk': "body (functionList M' ! k) ! b = concat (map ?tr pre) @ ?N0 # ?N1 # concat (map ?tr post)"
    using rewritten_block [OF rw k b blk] trI by simp
  have gone: "addr I \<notin> set (addrs M')" by (rule rewritten_gone [OF rw rN])
  show ?thesis
    using rw blk' gone f0 f1 ne rN args decl0(1) decl1(1) N0eq N1eq by blast
qed

theorem TwoMap_call_rewritten_witness:
  "distinct (addrs cvtMain)
   \<and> (0::nat) < length (functionList cvtMain)
   \<and> (0::nat) < length (body (functionList cvtMain ! 0))
   \<and> body (functionList cvtMain ! 0) ! 0 =
      [mkInst 10 (Call (FuncV 2) floatFn [ArgV 0 FloatTy] 0)]
      @ mkInst 11 (Call (FuncV 3) i32FromDouble [ArgV 1 DoubleTy] 0)
      # [mkInst 12 (Call (FuncV 2) floatFn [InstV 10 FloatTy] 0),
         mkInst 13 (OtherInst [InstV 12 FloatTy, InstV 11 (IntegerTy 32)] VoidTy)]
   \<and> ik (mkInst 11 (Call (FuncV 3) i32FromDouble [ArgV 1 DoubleTy] 0)) = Call (FuncV 3) i32FromDouble [ArgV 1 DoubleTy] 0
   \<and> getFunctionAt cvtMain 3 = Some (mkFunc 3 ''__builtin_IB_dtoi32_rtn'' i32FromDouble 0 [])
   \<and> TwoMap (fname (mkFunc 3 ''__builtin_IB_dtoi32_rtn'' i32FromDouble 0 [])) = Some (genx_rndd, genx_fptosi_sat)
   \<and> runOnModule debugBuild cvtMain = Inr cvtMainOut
   \<and> (\<exists>\<rho> tr N0 N1 decl0 decl1 arg0 rest. rewritten debugBuild cvtMain cvtMainOut \<rho> tr
       \<and> body (functionList cvtMainOut ! 0) ! 0 =
           concat (map tr [mkInst 10 (Call (FuncV 2) floatFn [ArgV 0 FloatTy] 0)]) @ N0 # N1
           # concat (map tr [mkInst 12 (Call (FuncV 2) floatFn [InstV 10 FloatTy] 0),
               mkInst 13 (OtherInst [InstV 12 FloatTy, InstV 11 (IntegerTy 32)] VoidTy)])
       \<and> addr (mkInst 11 (Call (FuncV 3) i32FromDouble [ArgV 1 DoubleTy] 0)) \<notin> set (addrs cvtMainOut)
       \<and> addr N0 \<notin> set (addrs cvtMain) \<and> addr N1 \<notin> set (addrs cvtMain)
       \<and> addr N0 \<noteq> addr N1
       \<and> \<rho> (addr (mkInst 11 (Call (FuncV 3) i32FromDouble [ArgV 1 DoubleTy] 0))) = Some (addr N1)
       \<and> [ArgV 1 DoubleTy] = arg0 # rest
       \<and> getFunction cvtMainOut (Intrinsic_getName genx_rndd [getType arg0]) = Some decl0
       \<and> getFunction cvtMainOut (Intrinsic_getName genx_fptosi_sat
             [getReturnType (ftype (mkFunc 3 ''__builtin_IB_dtoi32_rtn'' i32FromDouble 0 [])), getReturnType (intrinsicType debugBuild genx_rndd [getType arg0])]) = Some decl1
       \<and> N0 = \<lparr>addr = addr N0, dbgLoc = dbgLoc (mkInst 11 (Call (FuncV 3) i32FromDouble [ArgV 1 DoubleTy] 0)),
                ik = Call (FuncV (fptr decl0)) (intrinsicType debugBuild genx_rndd [getType arg0])
                       (map (renameBy \<rho>) [ArgV 1 DoubleTy]) 0\<rparr>
       \<and> N1 = \<lparr>addr = addr N1, dbgLoc = dbgLoc (mkInst 11 (Call (FuncV 3) i32FromDouble [ArgV 1 DoubleTy] 0)),
                ik = Call (FuncV (fptr decl1))
                       (intrinsicType debugBuild genx_fptosi_sat
                          [getReturnType (ftype (mkFunc 3 ''__builtin_IB_dtoi32_rtn'' i32FromDouble 0 [])), getReturnType (intrinsicType debugBuild genx_rndd [getType arg0])])
                       [InstV (addr N0) (getReturnType (intrinsicType debugBuild genx_rndd [getType arg0]))] 0\<rparr>)"
proof -
  have h1: "distinct (addrs cvtMain)"
    by code_simp
  have h2: "(0::nat) < length (functionList cvtMain)"
    by code_simp
  have h3: "(0::nat) < length (body (functionList cvtMain ! 0))"
    by code_simp
  have h4: "body (functionList cvtMain ! 0) ! 0 =
      [mkInst 10 (Call (FuncV 2) floatFn [ArgV 0 FloatTy] 0)]
      @ mkInst 11 (Call (FuncV 3) i32FromDouble [ArgV 1 DoubleTy] 0)
      # [mkInst 12 (Call (FuncV 2) floatFn [InstV 10 FloatTy] 0),
         mkInst 13 (OtherInst [InstV 12 FloatTy, InstV 11 (IntegerTy 32)] VoidTy)]"
    by code_simp
  have h5: "ik (mkInst 11 (Call (FuncV 3) i32FromDouble [ArgV 1 DoubleTy] 0)) = Call (FuncV 3) i32FromDouble [ArgV 1 DoubleTy] 0"
    by code_simp
  have h6: "getFunctionAt cvtMain 3 = Some (mkFunc 3 ''__builtin_IB_dtoi32_rtn'' i32FromDouble 0 [])"
    by code_simp
  have h7: "TwoMap (fname (mkFunc 3 ''__builtin_IB_dtoi32_rtn'' i32FromDouble 0 [])) = Some (genx_rndd, genx_fptosi_sat)"
    by code_simp
  have h8: "runOnModule debugBuild cvtMain = Inr cvtMainOut"
    by code_simp
  note c = TwoMap_call_rewritten [OF h1 h2 h3 h4 h5 h6 h7 h8]
  show ?thesis
    by (intro conjI h1 h2 h3 h4 h5 h6 h7 h8 c)
qed

lemma lowerDirect_ctlz:
  assumes "getIntrinsicID callee = ctlz"
  shows "lowerDirect E Ma J callee cv args =
     (if assertsEnabled E \<and> \<not> isIntegerTy (getType (case args of [] \<Rightarrow> cv | x # xs \<Rightarrow> x))
        then Some (Inl (AssertFail [] ''SrcTy->isIntegerTy()''))
      else if assertsEnabled E \<and> getPrimitiveSizeInBits (getType (case args of [] \<Rightarrow> cv | x # xs \<Rightarrow> x)) \<noteq> 32
        then Some (Inl (AssertFail [] ''SrcTy->getPrimitiveSizeInBits() == 32''))
      else
        (case getDeclaration E Ma genx_lzd [getType (case args of [] \<Rightarrow> cv | x # xs \<Rightarrow> x)] of
           Inl e \<Rightarrow> Some (Inl e)
         | Inr (M1, F) \<Rightarrow> Some (Inr (M1, [CallInst_Create F [case args of [] \<Rightarrow> cv | x # xs \<Rightarrow> x] J (newAddr Ma)]))))"
  using assms by (simp add: lowerDirect_def Let_def)

lemma int32_iff: "(isIntegerTy t \<and> getPrimitiveSizeInBits t = 32) = (t = IntegerTy 32)"
  by (cases t) (auto simp: isIntegerTy_def getPrimitiveSizeInBits_def)

lemma ctlz_rewritten_aux:
  assumes dist: "distinct (addrs M)"
    and k: "k < length (functionList M)" and b: "b < length (body (functionList M ! k))"
    and blk: "body (functionList M ! k) ! b = pre @ I # post"
    and call: "ik I = Call (FuncV g) fty args cc"
    and callee: "getFunctionAt M g = Some callee"
    and isctlz: "getIntrinsicID callee = ctlz"
    and src: "Src = (case args of [] \<Rightarrow> FuncV g | x # xs \<Rightarrow> x)"
    and run: "runOnModule E M = Inr M'"
  shows "(assertsEnabled E \<longrightarrow> getType Src = IntegerTy 32)
       \<and> (\<exists>\<rho> tr N decl. rewritten E M M' \<rho> tr
            \<and> body (functionList M' ! k) ! b = concat (map tr pre) @ N # concat (map tr post)
            \<and> addr I \<notin> set (addrs M') \<and> addr N \<notin> set (addrs M)
            \<and> \<rho> (addr I) = Some (addr N)
            \<and> getFunction M' (Intrinsic_getName genx_lzd [getType Src]) = Some decl
            \<and> N = \<lparr>addr = addr N, dbgLoc = dbgLoc I,
                    ik = Call (FuncV (fptr decl)) (intrinsicType E genx_lzd [getType Src])
                           [renameBy \<rho> Src] 0\<rparr>)"
proof -
  from runOnModule_rewritten [OF dist run] obtain \<rho> tm LD where
    rw: "rewritten E M M' \<rho> (out \<rho> tm (set LD))"
    and vis: "\<And>J. J \<in> set (allInsts M) \<Longrightarrow> visited E M M' LD \<rho> tm J"
    by blast
  let ?tr = "out \<rho> tm (set LD)"
  have IM: "I \<in> set (allInsts M)" by (rule block_mem_allInsts [OF k b blk])
  from visited_direct [OF vis [OF IM] call callee] obtain Ma callee' where
    sub: "set (addrs M) \<subseteq> set (addrs Ma)"
    and nm: "fname callee' = fname callee"
    and noerr: "\<And>e. lowerDirect E Ma I callee' (FuncV g) args \<noteq> Some (Inl e)"
    and ok: "\<And>M1 news. lowerDirect E Ma I callee' (FuncV g) args = Some (Inr (M1, news))
           \<Longrightarrow> tm (addr I) = news \<and> addr I \<in> set LD \<and> sigsExt M1 M' \<and>
               (if news = [] then \<rho> (addr I) = None
                else \<rho> (addr I) = Some (addr (last news)) \<and> instType (last news) = instType I)"
    by metis
  have c': "getIntrinsicID callee' = ctlz" using isctlz nm by (simp add: getIntrinsicID_def)
  note ld = lowerDirect_ctlz [OF c', of E Ma I "FuncV g" args, folded src]
  have ty: "getType Src = IntegerTy 32" if a: "assertsEnabled E"
  proof (rule ccontr)
    assume "getType Src \<noteq> IntegerTy 32"
    then have "\<not> isIntegerTy (getType Src) \<or> getPrimitiveSizeInBits (getType Src) \<noteq> 32"
      using int32_iff [of "getType Src"] by blast
    then have "\<exists>e. lowerDirect E Ma I callee' (FuncV g) args = Some (Inl e)"
      unfolding ld using a by auto
    with noerr show False by blast
  qed
  have nofail: "\<not> (assertsEnabled E \<and> \<not> isIntegerTy (getType Src))"
    "\<not> (assertsEnabled E \<and> getPrimitiveSizeInBits (getType Src) \<noteq> 32)"
    using ty int32_iff [of "getType Src"] by auto
  have ld2: "lowerDirect E Ma I callee' (FuncV g) args =
        (case getDeclaration E Ma genx_lzd [getType Src] of
           Inl e \<Rightarrow> Some (Inl e)
         | Inr (M1, F) \<Rightarrow> Some (Inr (M1, [CallInst_Create F [Src] I (newAddr Ma)])))"
    unfolding ld using nofail by (simp only: if_False)
  obtain M1 F where gd: "getDeclaration E Ma genx_lzd [getType Src] = Inr (M1, F)"
  proof (cases "getDeclaration E Ma genx_lzd [getType Src]")
    case (Inl e)
    with ld2 noerr show ?thesis by simp
  next
    case (Inr pr)
    then show ?thesis using that by (cases pr) simp
  qed
  let ?N0 = "CallInst_Create F [Src] I (newAddr Ma)"
  have low: "lowerDirect E Ma I callee' (FuncV g) args = Some (Inr (M1, [?N0]))"
    unfolding ld2 gd by simp
  from ok [OF low] have tmI: "tm (addr I) = [?N0]" and del: "addr I \<in> set LD"
    and s1: "sigsExt M1 M'" and rI: "\<rho> (addr I) = Some (newAddr Ma)"
    by (simp_all add: CallInst_Create_def)
  let ?N = "renameI (renameBy \<rho>) ?N0"
  have trI: "?tr I = [?N]" using tmI del by (simp add: out_def)
  from getDeclaration_shape [OF gd] have gf: "getFunction M1 (Intrinsic_getName genx_lzd [getType Src]) = Some F"
    and fty: "ftype F = intrinsicType E genx_lzd [getType Src]" by blast+
  from sigsExt_getFunction [OF s1 gf] obtain decl where
    decl: "getFunction M' (Intrinsic_getName genx_lzd [getType Src]) = Some decl" "fptr decl = fptr F"
    by blast
  have Neq: "?N = \<lparr>addr = addr ?N, dbgLoc = dbgLoc I,
               ik = Call (FuncV (fptr decl)) (intrinsicType E genx_lzd [getType Src]) [renameBy \<rho> Src] 0\<rparr>"
    by (simp add: renameI_def CallInst_Create_def decl(2) fty)
  have fresh: "addr ?N \<notin> set (addrs M)"
    using newAddr_notin [of Ma] sub by (auto simp: CallInst_Create_def)
  have rN: "\<rho> (addr I) = Some (addr ?N)" using rI by (simp add: CallInst_Create_def)
  have blk': "body (functionList M' ! k) ! b = concat (map ?tr pre) @ ?N # concat (map ?tr post)"
    using rewritten_block [OF rw k b blk] trI by simp
  have gone: "addr I \<notin> set (addrs M')" by (rule rewritten_gone [OF rw rN])
  have ex: "\<exists>\<rho> tr N decl. rewritten E M M' \<rho> tr
            \<and> body (functionList M' ! k) ! b = concat (map tr pre) @ N # concat (map tr post)
            \<and> addr I \<notin> set (addrs M') \<and> addr N \<notin> set (addrs M)
            \<and> \<rho> (addr I) = Some (addr N)
            \<and> getFunction M' (Intrinsic_getName genx_lzd [getType Src]) = Some decl
            \<and> N = \<lparr>addr = addr N, dbgLoc = dbgLoc I,
                    ik = Call (FuncV (fptr decl)) (intrinsicType E genx_lzd [getType Src])
                           [renameBy \<rho> Src] 0\<rparr>"
    using rw blk' gone fresh rN decl(1) Neq by blast
  show ?thesis using ty ex by (intro conjI impI)
qed

text \<open>
  Claim C5. Let \<open>I\<close> be a call whose called value is a function with the intrinsic
  identifier \<^verbatim>\<open>ctlz\<close>, and let \<open>Src\<close> be operand 0 of \<open>I\<close>. Whenever the rewriter returns a
  module \<open>M'\<close>, the call is no longer in \<open>M'\<close>, and in its place stands exactly one new
  instruction: a call of the declaration of \<^verbatim>\<open>genx_lzd\<close> instantiated with the type of
  \<open>Src\<close>, with \<open>Src\<close> (renamed by \<open>\<rho>\<close>) as its only argument; the uses of \<open>I\<close> are renamed
  to it. The two assertions on the type of \<open>Src\<close> are all that enforces the precondition.
  In a build with assertions the rewriter returns a module only if \<open>Src\<close> is a 32-bit
  integer; otherwise the pass aborts, and the step on \<open>I\<close> aborts with the assertion that
  failed. In a build without assertions nothing is checked: the call is rewritten for
  every type of \<open>Src\<close>.
\<close>

theorem ctlz_width_checked_only_with_assertions:
  assumes dist: "distinct (addrs M)"
    and k: "k < length (functionList M)" and b: "b < length (body (functionList M ! k))"
    and blk: "body (functionList M ! k) ! b = pre @ I # post"
    and call: "ik I = Call (FuncV g) fty args cc"
    and callee: "getFunctionAt M g = Some callee"
    and isctlz: "getIntrinsicID callee = ctlz"
    and src: "Src = (case args of [] \<Rightarrow> FuncV g | x # xs \<Rightarrow> x)"
  shows "(\<forall>M'. runOnModule E M = Inr M' \<longrightarrow>
            (assertsEnabled E \<longrightarrow> getType Src = IntegerTy 32)
            \<and> (\<exists>\<rho> tr N decl. rewritten E M M' \<rho> tr
            \<and> body (functionList M' ! k) ! b = concat (map tr pre) @ N # concat (map tr post)
            \<and> addr I \<notin> set (addrs M') \<and> addr N \<notin> set (addrs M)
            \<and> \<rho> (addr I) = Some (addr N)
            \<and> getFunction M' (Intrinsic_getName genx_lzd [getType Src]) = Some decl
            \<and> N = \<lparr>addr = addr N, dbgLoc = dbgLoc I,
                    ik = Call (FuncV (fptr decl)) (intrinsicType E genx_lzd [getType Src])
                           [renameBy \<rho> Src] 0\<rparr>))
       \<and> (assertsEnabled E \<longrightarrow> getType Src \<noteq> IntegerTy 32 \<longrightarrow> (\<exists>e. runOnModule E M = Inl e))
       \<and> (\<forall>Ma J. assertsEnabled E \<longrightarrow> \<not> isIntegerTy (getType Src) \<longrightarrow>
             lowerDirect E Ma J callee (FuncV g) args = Some (Inl (AssertFail [] ''SrcTy->isIntegerTy()'')))
       \<and> (\<forall>Ma J. assertsEnabled E \<longrightarrow> isIntegerTy (getType Src) \<longrightarrow>
             getPrimitiveSizeInBits (getType Src) \<noteq> 32 \<longrightarrow>
             lowerDirect E Ma J callee (FuncV g) args
               = Some (Inl (AssertFail [] ''SrcTy->getPrimitiveSizeInBits() == 32'')))"
proof (intro conjI allI impI)
  fix M' assume run: "runOnModule E M = Inr M'"
  note aux = ctlz_rewritten_aux [OF dist k b blk call callee isctlz src run]
  show "\<exists>\<rho> tr N decl. rewritten E M M' \<rho> tr
            \<and> body (functionList M' ! k) ! b = concat (map tr pre) @ N # concat (map tr post)
            \<and> addr I \<notin> set (addrs M') \<and> addr N \<notin> set (addrs M)
            \<and> \<rho> (addr I) = Some (addr N)
            \<and> getFunction M' (Intrinsic_getName genx_lzd [getType Src]) = Some decl
            \<and> N = \<lparr>addr = addr N, dbgLoc = dbgLoc I,
                    ik = Call (FuncV (fptr decl)) (intrinsicType E genx_lzd [getType Src])
                           [renameBy \<rho> Src] 0\<rparr>"
    by (rule aux [THEN conjunct2])
  assume "assertsEnabled E"
  with aux show "getType Src = IntegerTy 32" by blast
next
  assume a: "assertsEnabled E" and n: "getType Src \<noteq> IntegerTy 32"
  show "\<exists>e. runOnModule E M = Inl e"
  proof (cases "runOnModule E M")
    case (Inl e)
    then show ?thesis by blast
  next
    case (Inr M')
    from ctlz_rewritten_aux [OF dist k b blk call callee isctlz src Inr] a n
    show ?thesis by blast
  qed
next
  fix Ma J assume "assertsEnabled E" and "\<not> isIntegerTy (getType Src)"
  then show "lowerDirect E Ma J callee (FuncV g) args = Some (Inl (AssertFail [] ''SrcTy->isIntegerTy()''))"
    unfolding lowerDirect_ctlz [OF isctlz] src by simp
next
  fix Ma J assume "assertsEnabled E" and "isIntegerTy (getType Src)"
    and "getPrimitiveSizeInBits (getType Src) \<noteq> 32"
  then show "lowerDirect E Ma J callee (FuncV g) args
               = Some (Inl (AssertFail [] ''SrcTy->getPrimitiveSizeInBits() == 32''))"
    unfolding lowerDirect_ctlz [OF isctlz] src by simp
qed

theorem ctlz_width_checked_only_with_assertions_witness:
  "distinct (addrs cvtCtlz64)
   \<and> (0::nat) < length (functionList cvtCtlz64)
   \<and> (0::nat) < length (body (functionList cvtCtlz64 ! 0))
   \<and> body (functionList cvtCtlz64 ! 0) ! 0 = [] @ mkInst 10 (Call (FuncV 2) i64Ctlz [ArgV 0 (IntegerTy 64), ConstV 0 (IntegerTy 1)] 0) # [mkInst 11 (OtherInst [InstV 10 (IntegerTy 64)] VoidTy)]
   \<and> ik (mkInst 10 (Call (FuncV 2) i64Ctlz [ArgV 0 (IntegerTy 64), ConstV 0 (IntegerTy 1)] 0)) = Call (FuncV 2) i64Ctlz [ArgV 0 (IntegerTy 64), ConstV 0 (IntegerTy 1)] 0
   \<and> getFunctionAt cvtCtlz64 2 = Some (mkFunc 2 ''llvm.ctlz.i64'' i64Ctlz 0 [])
   \<and> getIntrinsicID (mkFunc 2 ''llvm.ctlz.i64'' i64Ctlz 0 []) = ctlz
   \<and> getType (ArgV 0 (IntegerTy 64)) = IntegerTy 64
   \<and> \<not> assertsEnabled releaseBuild
   \<and> runOnModule releaseBuild cvtCtlz64 = Inr cvtCtlz64Out
   \<and> (\<exists>\<rho> tr N decl. rewritten releaseBuild cvtCtlz64 cvtCtlz64Out \<rho> tr
            \<and> body (functionList cvtCtlz64Out ! 0) ! 0 = concat (map tr []) @ N # concat (map tr [mkInst 11 (OtherInst [InstV 10 (IntegerTy 64)] VoidTy)])
            \<and> addr (mkInst 10 (Call (FuncV 2) i64Ctlz [ArgV 0 (IntegerTy 64), ConstV 0 (IntegerTy 1)] 0)) \<notin> set (addrs cvtCtlz64Out) \<and> addr N \<notin> set (addrs cvtCtlz64)
            \<and> \<rho> (addr (mkInst 10 (Call (FuncV 2) i64Ctlz [ArgV 0 (IntegerTy 64), ConstV 0 (IntegerTy 1)] 0))) = Some (addr N)
            \<and> getFunction cvtCtlz64Out (Intrinsic_getName genx_lzd [getType (ArgV 0 (IntegerTy 64))]) = Some decl
            \<and> N = \<lparr>addr = addr N, dbgLoc = dbgLoc (mkInst 10 (Call (FuncV 2) i64Ctlz [ArgV 0 (IntegerTy 64), ConstV 0 (IntegerTy 1)] 0)),
                    ik = Call (FuncV (fptr decl)) (intrinsicType releaseBuild genx_lzd [getType (ArgV 0 (IntegerTy 64))])
                           [renameBy \<rho> (ArgV 0 (IntegerTy 64))] 0\<rparr>)
   \<and> assertsEnabled debugBuild
   \<and> runOnModule debugBuild cvtCtlz64 = Inl (AssertFail [] ''SrcTy->getPrimitiveSizeInBits() == 32'')"
proof -
  have h1: "distinct (addrs cvtCtlz64)"
    by code_simp
  have h2: "(0::nat) < length (functionList cvtCtlz64)"
    by code_simp
  have h3: "(0::nat) < length (body (functionList cvtCtlz64 ! 0))"
    by code_simp
  have h4: "body (functionList cvtCtlz64 ! 0) ! 0 = [] @ mkInst 10 (Call (FuncV 2) i64Ctlz [ArgV 0 (IntegerTy 64), ConstV 0 (IntegerTy 1)] 0) # [mkInst 11 (OtherInst [InstV 10 (IntegerTy 64)] VoidTy)]"
    by code_simp
  have h5: "ik (mkInst 10 (Call (FuncV 2) i64Ctlz [ArgV 0 (IntegerTy 64), ConstV 0 (IntegerTy 1)] 0)) = Call (FuncV 2) i64Ctlz [ArgV 0 (IntegerTy 64), ConstV 0 (IntegerTy 1)] 0"
    by code_simp
  have h6: "getFunctionAt cvtCtlz64 2 = Some (mkFunc 2 ''llvm.ctlz.i64'' i64Ctlz 0 [])"
    by code_simp
  have h7: "getIntrinsicID (mkFunc 2 ''llvm.ctlz.i64'' i64Ctlz 0 []) = ctlz"
    by code_simp
  have h8: "ArgV 0 (IntegerTy 64)
      = (case [ArgV 0 (IntegerTy 64), ConstV 0 (IntegerTy 1)] of [] \<Rightarrow> FuncV 2 | x # xs \<Rightarrow> x)"
    by simp
  have t: "getType (ArgV 0 (IntegerTy 64)) = IntegerTy 64"
    by simp
  have r0: "\<not> assertsEnabled releaseBuild"
    by (simp add: releaseBuild_def)
  have d0: "assertsEnabled debugBuild"
    by (simp add: debugBuild_def)
  have run: "runOnModule releaseBuild cvtCtlz64 = Inr cvtCtlz64Out"
    by code_simp
  have dbg: "runOnModule debugBuild cvtCtlz64 = Inl (AssertFail [] ''SrcTy->getPrimitiveSizeInBits() == 32'')"
    by code_simp
  note th = ctlz_width_checked_only_with_assertions [OF h1 h2 h3 h4 h5 h6 h7 h8, of releaseBuild]
  note c = th [THEN conjunct1, THEN spec, THEN mp, OF run, THEN conjunct2]
  show ?thesis
    by (intro conjI h1 h2 h3 h4 h5 h6 h7 t r0 run c d0 dbg)
qed






section \<open>Properties of signature repair\<close>

text \<open>
  Claim C4. Let the instruction at \<open>a\<close> be a call through a cast of the function \<open>f\<close> of
  the module, which is more than a declaration, at a function type \<open>callTy\<close> that no copy
  of \<open>f\<close> made so far has, and let \<open>callTy\<close> and the type of \<open>f\<close> differ in the number of
  parameters. The step of signature repair on \<open>a\<close> leaves the instructions, the queue of
  deletions and the map of copies as they are, but it is no no-op: the function that
  \<^verbatim>\<open>Function::Create\<close> made before the numbers were compared stays at the end of the
  function list of the module, without a body, with the type \<open>callTy\<close> and the linkage of
  \<open>f\<close>.
\<close>

theorem arity_mismatch_leaves_created_function:
  assumes "findInst (rpModule st) a = Some I"
    and "ik I = Call (CastExprV v) callTy Args cc"
    and "stripPointerCasts (CastExprV v) = FuncV p"
    and "getFunctionAt (rpModule st) p = Some f"
    and "\<not> isDeclaration f"
    and "find (\<lambda>F. ftype F = callTy)
           (List.map_filter (getFunctionAt (rpModule st)) (bitcastFunctionMap st p)) = None"
    and "length (getParamTypes callTy) \<noteq> length (getParamTypes (ftype f))"
  shows "repairCall uniq st a =
           st\<lparr>rpModule := (rpModule st)\<lparr>functionList := functionList (rpModule st) @
              [\<lparr>fptr = newFptr (rpModule st), fname = uniq (map fname (functionList (rpModule st))) (fname f),
                 ftype = callTy, linkage = linkage f, dllExport = False, callingConv = 0, attributes = 0,
                 argNames = replicate (length (getParamTypes callTy)) [], body = [], lazyBody = None\<rparr>]\<rparr>\<rparr>
       \<and> allInsts (rpModule (repairCall uniq st a)) = allInsts (rpModule st)
       \<and> list_delete (repairCall uniq st a) = list_delete st
       \<and> bitcastFunctionMap (repairCall uniq st a) = bitcastFunctionMap st
       \<and> length (functionList (rpModule (repairCall uniq st a))) = Suc (length (functionList (rpModule st)))"
proof -
  have eq: "repairCall uniq st a =
           st\<lparr>rpModule := (rpModule st)\<lparr>functionList := functionList (rpModule st) @
              [\<lparr>fptr = newFptr (rpModule st), fname = uniq (map fname (functionList (rpModule st))) (fname f),
                 ftype = callTy, linkage = linkage f, dllExport = False, callingConv = 0, attributes = 0,
                 argNames = replicate (length (getParamTypes callTy)) [], body = [], lazyBody = None\<rparr>]\<rparr>\<rparr>"
    using assms by (simp add: repairCall_def Let_def Function_Create_def)
  show ?thesis unfolding eq by (simp add: allInsts_def)
qed

theorem arity_mismatch_leaves_created_function_witness:
  "findInst repairArity 10 = Some (mkInst 10 (Call (CastExprV (FuncV 2)) i32Fn2 [ConstV 1 (IntegerTy 32), ConstV 2 (IntegerTy 32)] 0))
   \<and> ik (mkInst 10 (Call (CastExprV (FuncV 2)) i32Fn2 [ConstV 1 (IntegerTy 32), ConstV 2 (IntegerTy 32)] 0)) = Call (CastExprV (FuncV 2)) i32Fn2 [ConstV 1 (IntegerTy 32), ConstV 2 (IntegerTy 32)] 0
   \<and> stripPointerCasts (CastExprV (FuncV 2)) = FuncV 2
   \<and> getFunctionAt repairArity 2 = Some helperFn
   \<and> \<not> isDeclaration helperFn
   \<and> length (getParamTypes i32Fn2) = 2 \<and> length (getParamTypes (ftype helperFn)) = 1
   \<and> length (functionList (rpModule (repairCall exampleUniq
         \<lparr>rpModule = repairArity, list_delete = [], bitcastFunctionMap = (\<lambda>p. [])\<rparr> 10))) = 3
   \<and> removeFunctionBitcasts exampleUniq 5 repairArity
       = Some (repairArity\<lparr>functionList := functionList repairArity @ [\<lparr>fptr = 3, fname = ''helper.2'', ftype = i32Fn2, linkage = ExternalLinkage, dllExport = False,
         callingConv = 0, attributes = 0, argNames = [[], []], body = [], lazyBody = None\<rparr>]\<rparr>)"
proof -
  let ?st = "\<lparr>rpModule = repairArity, list_delete = [], bitcastFunctionMap = (\<lambda>p. [])\<rparr>"
  have h1: "findInst (rpModule ?st) 10 = Some (mkInst 10 (Call (CastExprV (FuncV 2)) i32Fn2 [ConstV 1 (IntegerTy 32), ConstV 2 (IntegerTy 32)] 0))"
    by code_simp
  have h2: "ik (mkInst 10 (Call (CastExprV (FuncV 2)) i32Fn2 [ConstV 1 (IntegerTy 32), ConstV 2 (IntegerTy 32)] 0)) = Call (CastExprV (FuncV 2)) i32Fn2 [ConstV 1 (IntegerTy 32), ConstV 2 (IntegerTy 32)] 0"
    by code_simp
  have h3: "stripPointerCasts (CastExprV (FuncV 2)) = FuncV 2"
    by simp
  have h4: "getFunctionAt (rpModule ?st) 2 = Some helperFn"
    by code_simp
  have h5: "\<not> isDeclaration helperFn"
    by code_simp
  have h6: "find (\<lambda>F. ftype F = i32Fn2)
           (List.map_filter (getFunctionAt (rpModule ?st)) (bitcastFunctionMap ?st 2)) = None"
    by (simp add: List.map_filter_simps)
  have n1: "length (getParamTypes i32Fn2) = 2"
    by code_simp
  have n2: "length (getParamTypes (ftype helperFn)) = 1"
    by code_simp
  have h7: "length (getParamTypes i32Fn2) \<noteq> length (getParamTypes (ftype helperFn))"
    unfolding n1 n2 by simp
  have g1: "findInst repairArity 10 = Some (mkInst 10 (Call (CastExprV (FuncV 2)) i32Fn2 [ConstV 1 (IntegerTy 32), ConstV 2 (IntegerTy 32)] 0))"
    by code_simp
  have g4: "getFunctionAt repairArity 2 = Some helperFn"
    by code_simp
  have len: "length (functionList repairArity) = 2"
    by code_simp
  note th = arity_mismatch_leaves_created_function [OF h1 h2 h3 h4 h5 h6 h7, of exampleUniq]
  from th have "length (functionList (rpModule (repairCall exampleUniq ?st 10)))
      = Suc (length (functionList (rpModule ?st)))"
    by (elim conjE)
  then have c: "length (functionList (rpModule (repairCall exampleUniq ?st 10))) = 3"
    using len by simp
  have w: "removeFunctionBitcasts exampleUniq 5 repairArity
       = Some (repairArity\<lparr>functionList := functionList repairArity @ [\<lparr>fptr = 3, fname = ''helper.2'', ftype = i32Fn2, linkage = ExternalLinkage, dllExport = False,
         callingConv = 0, attributes = 0, argNames = [[], []], body = [], lazyBody = None\<rparr>]\<rparr>)"
    by code_simp
  show ?thesis
    by (intro conjI g1 h2 h3 g4 h5 n1 n2 c w)
qed

lemma repairCall_noop:
  assumes "\<forall>J \<in> set (allInsts (rpModule st)). \<not> bitcastCall (rpModule st) J"
  shows "repairCall uniq st a = st"
proof (cases "findInst (rpModule st) a")
  case None
  then show ?thesis by (simp add: repairCall_def)
next
  case (Some J)
  then have "J \<in> set (allInsts (rpModule st))"
    by (auto simp: findInst_def dest: find_SomeD)
  with assms have "\<not> bitcastCall (rpModule st) J" by blast
  then show ?thesis using Some
    by (auto simp: repairCall_def bitcastCall_def Let_def split: instKind.splits val.splits option.splits)
qed

lemma repairInsts_noop:
  assumes "\<forall>J \<in> set (allInsts (rpModule st)). \<not> bitcastCall (rpModule st) J"
  shows "repairInsts uniq st as = st"
  by (induction as) (simp_all add: repairCall_noop [OF assms])

lemma repairFunctions_noop:
  assumes nb: "\<forall>J \<in> set (allInsts (rpModule st)). \<not> bitcastCall (rpModule st) J"
  shows "length (filter (\<lambda>f. fptr f \<notin> set met) (functionList (rpModule st))) \<le> n
           \<Longrightarrow> repairFunctions uniq n met st = Some st"
proof (induction n arbitrary: met)
  case 0
  then have "filter (\<lambda>f. fptr f \<notin> set met) (functionList (rpModule st)) = []" by simp
  then have "find (\<lambda>f. fptr f \<notin> set met) (functionList (rpModule st)) = None"
    by (simp add: find_None_iff filter_empty_conv)
  then show ?case by simp
next
  case (Suc n)
  show ?case
  proof (cases "find (\<lambda>f. fptr f \<notin> set met) (functionList (rpModule st))")
    case None
    then show ?thesis by simp
  next
    case (Some func)
    from find_SomeD [OF Some] have f1: "fptr func \<notin> set met" and f2: "func \<in> set (functionList (rpModule st))"
      by blast+
    let ?fs = "functionList (rpModule st)"
    have "length (filter (\<lambda>f. fptr f \<notin> set (met @ [fptr func])) ?fs)
        < length (filter (\<lambda>f. fptr f \<notin> set met) ?fs)"
    proof -
      have "filter (\<lambda>f. fptr f \<notin> set (met @ [fptr func])) ?fs
          = filter (\<lambda>f. fptr f \<noteq> fptr func) (filter (\<lambda>f. fptr f \<notin> set met) ?fs)"
        by (simp add: conj_commute)
      moreover have "func \<in> set (filter (\<lambda>f. fptr f \<notin> set met) ?fs)" using f1 f2 by simp
      ultimately show ?thesis
        using length_filter_less [of func "filter (\<lambda>f. fptr f \<notin> set met) ?fs" "\<lambda>f. fptr f \<noteq> fptr func"]
        by simp
    qed
    with Suc.prems have "length (filter (\<lambda>f. fptr f \<notin> set (met @ [fptr func])) ?fs) \<le> n" by simp
    from Suc.IH [OF this] show ?thesis
      using Some by (simp add: repairInsts_noop [OF nb])
  qed
qed

lemma eraseFromParent_Nil [simp]: "eraseFromParent [] M = M"
proof -
  have a: "map (filter (\<lambda>J. True)) bs = bs" for bs :: "inst list list"
    by (rule map_idI) simp
  have b: "map (\<lambda>f. f\<lparr>body := map (filter (\<lambda>J. addr J \<notin> set [])) (body f)\<rparr>) fs = fs" for fs :: "Func list"
    by (rule map_idI) (simp add: a)
  show ?thesis unfolding eraseFromParent_def mapBlocks_def b by simp
qed

lemma removeFunctionBitcasts_noop:
  assumes "\<forall>J \<in> set (allInsts M). \<not> bitcastCall M J" and "length (functionList M) \<le> n"
  shows "removeFunctionBitcasts uniq n M = Some M"
proof -
  let ?st = "\<lparr>rpModule = M, list_delete = [], bitcastFunctionMap = (\<lambda>p. [])\<rparr>"
  have "length (filter (\<lambda>f. fptr f \<notin> set []) (functionList (rpModule ?st))) \<le> n"
    using assms(2) by simp
  from repairFunctions_noop [OF _ this, of uniq] assms(1)
  have "repairFunctions uniq n [] ?st = Some ?st" by simp
  then show ?thesis by (simp add: removeFunctionBitcasts_def)
qed

lemma convertCall_noop:
  assumes "\<forall>J \<in> set (allInsts (cvtModule st)). lowerCall E (cvtModule st) J = None"
  shows "convertCall E st a = Inr st"
proof (cases "findInst (cvtModule st) a")
  case None
  then show ?thesis by (simp add: convertCall_def)
next
  case (Some J)
  then have "J \<in> set (allInsts (cvtModule st))"
    by (auto simp: findInst_def dest: find_SomeD)
  with assms have "lowerCall E (cvtModule st) J = None" by blast
  then show ?thesis using Some by (simp add: convertCall_def)
qed

lemma runOnInsts_noop:
  assumes "\<forall>J \<in> set (allInsts (cvtModule st)). lowerCall E (cvtModule st) J = None"
  shows "runOnInsts E st Is = Inr st"
  by (induction Is) (simp_all add: convertCall_noop [OF assms])

lemma runOnModule_noop:
  assumes "\<forall>J \<in> set (allInsts M). lowerCall E M J = None"
  shows "runOnModule E M = Inr (internalize M)"
proof -
  let ?st = "\<lparr>cvtModule = M, ListDelete = []\<rparr>"
  have "runOnInsts E ?st (allInsts M) = Inr ?st"
    by (rule runOnInsts_noop) (use assms in simp)
  then have "runOnFunctions E ?st (functionList M) = Inr ?st"
    by (simp add: runOnFunctions_flat allInsts_def)
  then show ?thesis by (simp add: runOnModule_def)
qed

text \<open>
  Claim C9, as stated, fails. No call of \<open>cvtPlain\<close> has a callee whose name is in a
  table or has one of the prefixes, and none goes through a cast; yet the module that
  the passes return is not \<open>cvtPlain\<close>: the function \<open>kernel\<close> and the global variable
  have internal linkage in it.
\<close>

theorem rewrite_passes_not_noop_counterexample:
  "map (\<lambda>J. case ik J of Call cv fty args cc \<Rightarrow> Some cv | _ \<Rightarrow> None) (allInsts cvtPlain)
     = [Some (FuncV 2), None]
   \<and> map_option fname (getFunctionAt cvtPlain 2) = Some ''foo''
   \<and> \<not> matchesName ''foo''
   \<and> rewritePasses debugBuild exampleUniq 5 cvtPlain = Some (Inr (internalize cvtPlain))
   \<and> internalize cvtPlain \<noteq> cvtPlain
   \<and> map linkage (functionList cvtPlain) = [ExternalLinkage, ExternalLinkage]
   \<and> map linkage (functionList (internalize cvtPlain)) = [InternalLinkage, ExternalLinkage]
   \<and> map glinkage (globalList cvtPlain) = [ExternalLinkage]
   \<and> map glinkage (globalList (internalize cvtPlain)) = [InternalLinkage]"
  by code_simp

text \<open>
  Claim C9, amended. Let no instruction of the module be one on which a case of the call
  rewriter applies (that is a direct call of a function whose name is a key of a table or
  has one of the prefixes, or which is a lifetime marker or \<^verbatim>\<open>llvm.ctlz\<close>), and none a
  call through a cast of a function of the module that is more than a declaration. Then
  signature repair returns the module as it is, and the passes return the module with
  internal linkage set on every global variable that has an initializer and on every
  function that is not an intrinsic, is more than a declaration and is not exported from
  a DLL. No instruction is added, removed or changed, no function is added or removed,
  and nothing but the linkage of these globals and functions differs.
\<close>

theorem rewrite_passes_change_linkage_only:
  assumes "\<forall>J \<in> set (allInsts M). lowerCall E M J = None \<and> \<not> bitcastCall M J"
    and "length (functionList M) \<le> n"
  shows "removeFunctionBitcasts uniq n M = Some M
       \<and> rewritePasses E uniq n M = Some (Inr (internalize M))
       \<and> allInsts (internalize M) = allInsts M
       \<and> map (\<lambda>G. G\<lparr>glinkage := InternalLinkage\<rparr>) (globalList (internalize M))
           = map (\<lambda>G. G\<lparr>glinkage := InternalLinkage\<rparr>) (globalList M)
       \<and> map (\<lambda>F. F\<lparr>linkage := InternalLinkage\<rparr>) (functionList (internalize M))
           = map (\<lambda>F. F\<lparr>linkage := InternalLinkage\<rparr>) (functionList M)
       \<and> map glinkage (globalList (internalize M))
           = map (\<lambda>G. if initializer G \<noteq> None then InternalLinkage else glinkage G) (globalList M)
       \<and> map linkage (functionList (internalize M))
           = map (\<lambda>F. if getIntrinsicID F = not_intrinsic \<and> \<not> isDeclaration F \<and> \<not> dllExport F
                       then InternalLinkage else linkage F) (functionList M)"
proof -
  have a: "\<forall>J \<in> set (allInsts M). \<not> bitcastCall M J" using assms(1) by blast
  have b: "\<forall>J \<in> set (allInsts M). lowerCall E M J = None" using assms(1) by blast
  have r1: "removeFunctionBitcasts uniq n M = Some M"
    by (rule removeFunctionBitcasts_noop [OF a assms(2)])
  have r2: "rewritePasses E uniq n M = Some (Inr (internalize M))"
    by (simp add: rewritePasses_def r1 runOnModule_noop [OF b])
  have r3: "allInsts (internalize M) = allInsts M" by simp
  have r4: "map (\<lambda>G. G\<lparr>glinkage := InternalLinkage\<rparr>) (globalList (internalize M))
           = map (\<lambda>G. G\<lparr>glinkage := InternalLinkage\<rparr>) (globalList M)"
    by (simp add: internalize_def)
  have r5: "map (\<lambda>F. F\<lparr>linkage := InternalLinkage\<rparr>) (functionList (internalize M))
           = map (\<lambda>F. F\<lparr>linkage := InternalLinkage\<rparr>) (functionList M)"
    by (simp add: internalize_def)
  have r6: "map glinkage (globalList (internalize M))
           = map (\<lambda>G. if initializer G \<noteq> None then InternalLinkage else glinkage G) (globalList M)"
    by (simp add: internalize_def)
  have r7: "map linkage (functionList (internalize M))
           = map (\<lambda>F. if getIntrinsicID F = not_intrinsic \<and> \<not> isDeclaration F \<and> \<not> dllExport F
                       then InternalLinkage else linkage F) (functionList M)"
    by (simp add: internalize_def)
  show ?thesis by (intro conjI r1 r2 r3 r4 r5 r6 r7)
qed

theorem rewrite_passes_change_linkage_only_witness:
  "list_all (\<lambda>J. lowerCall debugBuild cvtPlain J = None \<and> \<not> bitcastCall cvtPlain J) (allInsts cvtPlain)
   \<and> length (functionList cvtPlain) \<le> 5
   \<and> removeFunctionBitcasts exampleUniq 5 cvtPlain = Some cvtPlain
   \<and> rewritePasses debugBuild exampleUniq 5 cvtPlain = Some (Inr (internalize cvtPlain))
   \<and> allInsts (internalize cvtPlain) = allInsts cvtPlain
   \<and> map glinkage (globalList (internalize cvtPlain)) = [InternalLinkage]
   \<and> map linkage (functionList (internalize cvtPlain)) = [InternalLinkage, ExternalLinkage]"
proof -
  have h0: "list_all (\<lambda>J. lowerCall debugBuild cvtPlain J = None \<and> \<not> bitcastCall cvtPlain J) (allInsts cvtPlain)"
    by code_simp
  have h1: "\<forall>J \<in> set (allInsts cvtPlain). lowerCall debugBuild cvtPlain J = None \<and> \<not> bitcastCall cvtPlain J"
    using h0 by (simp add: list_all_iff)
  have h2: "length (functionList cvtPlain) \<le> 5"
    by code_simp
  note th = rewrite_passes_change_linkage_only [OF h1 h2, of exampleUniq]
  have c1: "removeFunctionBitcasts exampleUniq 5 cvtPlain = Some cvtPlain"
    using th by (elim conjE)
  have c2: "rewritePasses debugBuild exampleUniq 5 cvtPlain = Some (Inr (internalize cvtPlain))"
    using th by (elim conjE)
  have c3: "allInsts (internalize cvtPlain) = allInsts cvtPlain"
    using th by (elim conjE)
  have c4: "map glinkage (globalList (internalize cvtPlain)) = [InternalLinkage]"
    by code_simp
  have c5: "map linkage (functionList (internalize cvtPlain)) = [InternalLinkage, ExternalLinkage]"
    by code_simp
  show ?thesis
    by (intro conjI h0 h2 c1 c2 c3 c4 c5)
qed

section \<open>The map of copies of signature repair\<close>


lemma getFunctionAt_None_iff: "(getFunctionAt M q = None) = (q \<notin> fptrs M)"
  by (auto simp: getFunctionAt_def fptrs_def find_None_iff)

lemma typeAt_None_iff: "(typeAt M q = None) = (q \<notin> fptrs M)"
  by (simp add: typeAt_def getFunctionAt_None_iff)




lemma fptrs_append [simp]: "fptrs (M\<lparr>functionList := functionList M @ [g]\<rparr>) = insert (fptr g) (fptrs M)"
  by (auto simp: fptrs_def)

lemma allInsts_append [simp]:
  "allInsts (M\<lparr>functionList := functionList M @ [g]\<rparr>) = allInsts M @ concat (body g)"
  by (simp add: allInsts_def)

lemma castsIn_append [simp]: "castsIn (xs @ ys) = castsIn xs \<union> castsIn ys"
  by (auto simp: castsIn_def)

lemma castsIn_Nil [simp]: "castsIn [] = {}"
  by (simp add: castsIn_def)



lemma set_operandsOf: "set (operandsOf k) = set (operands k)"
  by (cases k) auto











lemma sigs_dropAllReferences [simp]: "sigs (dropAllReferences a M) = sigs M"
  by (simp add: dropAllReferences_def)

lemma sigs_insertBefore [simp]: "sigs (insertBefore a news M) = sigs M"
  by (simp add: insertBefore_def)

lemma sigs_replaceAllUsesWith [simp]: "sigs (replaceAllUsesWith a b M) = sigs M"
  by (simp add: replaceAllUsesWith_def)


lemma fptrs_eraseFunction [simp]: "fptrs (eraseFunction p M) = fptrs M - {p}"
  by (auto simp: fptrs_def eraseFunction_def)









lemma sigs_redirect:
  "sigs (dropAllReferences a (replaceAllUsesWith a b (insertBefore a news M))) = sigs M"
  by simp




lemma copyPtrs_module [simp]: "copyPtrs (st\<lparr>rpModule := M\<rparr>) = copyPtrs st"
  by (simp add: copyPtrs_def)













lemma steps_trans: "steps uniq b c \<Longrightarrow> steps uniq a b \<Longrightarrow> steps uniq a c"
  by (induction rule: steps.induct) (auto intro: steps.intros)







end
